theory Spec2Isabelle
  imports Main "HOL-Library.Word" "HOL-Library.AList" "HOL-Library.Char_ord"
    "HOL-Library.List_Lexorder"
begin

section \<open>Data model of package migrate\<close>

text \<open>
  \<^verbatim>\<open>const ( Back MigraionDirection = iota; Forward; NotFound )\<close>
\<close>

datatype MigraionDirection = Back | Forward | NotFound

text \<open>
  \<^verbatim>\<open>type Migration struct { Sequence int32; Name, UpSQL, DownSQL string }\<close>
\<close>

record Migration =
  Sequence :: "32 word"
  Name :: string
  UpSQL :: string
  DownSQL :: string

text \<open>
  The error values of the package, together with the errors that reach it from its
  collaborators: \<open>PgError\<close> is a \<^verbatim>\<open>*pgconn.PgError\<close> (the only error
  that the type assertion in \<^verbatim>\<open>MigrateTo\<close> recognises), \<open>ErrTxClosed\<close> is
  what pgx answers on a transaction that is already finished, \<open>ConnError\<close> is any
  other error of the connection, \<open>FsError\<close> an error of the file system and
  \<open>TemplateError\<close> an error of text/template.
\<close>

datatype error =
    ErrNoMigrations
  | ErrNoFwMigration
  | BadVersionError string
  | IrreversibleMigrationError Migration
  | MigrationNotFound string
  | NoMigrationsFoundError string
  | MigrationPgError string string
  | PgError string
  | ErrTxClosed
  | ConnError string
  | FsError string
  | TemplateError string

text \<open>
  How a Go function call ends: it returns its \<^verbatim>\<open>error\<close> result (nil is
  \<open>None\<close>), or it panics (here always the nil-pointer dereference or the slice bound
  of \<^verbatim>\<open>MigrateTo\<close>).
\<close>

datatype outcome = Returned "error option" | Panicked

section \<open>The database connection\<close>

text \<open>
  \<^verbatim>\<open>DBConnection\<close> is an interface; the statements that package migrate sends
  through it are listed here by what they are, the version table's name left out.
  \<open>BeginTx\<close> is \<^verbatim>\<open>conn.Begin\<close>; \<open>CommitTx i\<close> and \<open>RollbackTx i\<close> are
  \<^verbatim>\<open>tx.Commit\<close> and \<^verbatim>\<open>tx.Rollback\<close> on the transaction that the
  \<open>i\<close>-th \<^verbatim>\<open>Begin\<close> returned.
\<close>

datatype stmt =
    AdvisoryLock
  | AdvisoryUnlock
  | SelectVersions
  | BeginTx
  | CommitTx nat
  | RollbackTx nat
  | ExecSQL string
  | ResetAll
  | InsertVersion string
  | DeleteVersion string

datatype event =
    Call stmt "error option"
  | OnStartCall "32 word" string string string

text \<open>
  The database as one session sees it: the names in the version table in the order of
  \<^verbatim>\<open>migrated_at\<close>, the migration bodies whose effects the database holds (SQL
  is opaque, so an executed body is remembered as text), the advisory lock count of the
  session, the open transaction with the snapshot to which a rollback returns, the
  number of transactions begun so far, and the trace of every call made on the
  connection and of every call of the observer.
\<close>

record db =
  schema_version :: "string list"
  executed :: "string list"
  lock_held :: nat
  open_tx :: "(nat \<times> string list \<times> string list) option"
  next_tx :: nat
  trace :: "event list"

text \<open>What a statement does when the database accepts it.\<close>

fun effect :: "stmt \<Rightarrow> db \<Rightarrow> error option \<times> db" where
  "effect AdvisoryLock s = (None, s\<lparr>lock_held := Suc (lock_held s)\<rparr>)"
| "effect AdvisoryUnlock s = (None, s\<lparr>lock_held := lock_held s - 1\<rparr>)"
| "effect SelectVersions s = (None, s)"
| "effect BeginTx s =
     (None, s\<lparr>open_tx := Some (next_tx s, schema_version s, executed s),
               next_tx := Suc (next_tx s)\<rparr>)"
| "effect (CommitTx i) s =
     (case open_tx s of
        None \<Rightarrow> (Some ErrTxClosed, s)
      | Some (j, snap) \<Rightarrow>
          if i = j then (None, s\<lparr>open_tx := None\<rparr>) else (Some ErrTxClosed, s))"
| "effect (RollbackTx i) s =
     (case open_tx s of
        None \<Rightarrow> (Some ErrTxClosed, s)
      | Some (j, vs, ex) \<Rightarrow>
          if i = j then (None, s\<lparr>schema_version := vs, executed := ex, open_tx := None\<rparr>)
          else (Some ErrTxClosed, s))"
| "effect (ExecSQL q) s = (None, s\<lparr>executed := executed s @ [q]\<rparr>)"
| "effect ResetAll s = (None, s)"
| "effect (InsertVersion n) s = (None, s\<lparr>schema_version := schema_version s @ [n]\<rparr>)"
| "effect (DeleteVersion n) s =
     (None, s\<lparr>schema_version := filter (\<lambda>x. x \<noteq> n) (schema_version s)\<rparr>)"

text \<open>
  A connection is the database together with a fault oracle \<open>F\<close>: before a statement
  reaches the database, \<open>F\<close> sees the whole state (the trace included) and the statement
  and may make the call fail with an error of its choice; a call that fails leaves the
  database as it was. Every call is appended to the trace with its result.
\<close>

type_synonym faults = "db \<Rightarrow> stmt \<Rightarrow> error option"

definition conn_call :: "faults \<Rightarrow> stmt \<Rightarrow> db \<Rightarrow> error option \<times> db" where
  "conn_call F st s =
     (case F s st of
        Some e \<Rightarrow> (Some e, s\<lparr>trace := trace s @ [Call st (Some e)]\<rparr>)
      | None \<Rightarrow>
          (let (r, s') = effect st s
           in (r, s'\<lparr>trace := trace s @ [Call st r]\<rparr>)))"

definition no_faults :: faults where
  "no_faults = (\<lambda>s st. None)"

section \<open>The migrator\<close>

text \<open>
  \<^verbatim>\<open>Migrator\<close>: the connection is passed to every function as the oracle and
  the state; \<open>Migrations\<close> is the Go map as an association list (a Go map has each key
  once, and its values here are never nil); \<open>OnStart\<close> says whether the callback is set,
  its calls are events of the trace.
\<close>

record Migrator =
  DisableTx :: bool
  Migrations :: "(string \<times> Migration) list"
  OnStart :: bool

definition lookup :: "Migrator \<Rightarrow> string \<Rightarrow> Migration option" where
  "lookup m name = map_of (Migrations m) name"

text \<open>
  \<^verbatim>\<open>m.Migrations[name] = &Migration{Sequence: int32(len(m.Migrations)) + 1, ...}\<close>
\<close>

definition AppendMigration :: "string \<Rightarrow> string \<Rightarrow> string \<Rightarrow> Migrator \<Rightarrow> Migrator" where
  "AppendMigration name upSQL downSQL m =
     m\<lparr>Migrations :=
         AList.update name
           \<lparr>Sequence = of_nat (length (Migrations m)) + 1, Name = name,
            UpSQL = upSQL, DownSQL = downSQL\<rparr>
           (Migrations m)\<rparr>"

text \<open>
  \<^verbatim>\<open>select pg_advisory_lock($1)\<close> and \<^verbatim>\<open>select pg_advisory_unlock($1)\<close>.
\<close>

definition acquireAdvisoryLock :: "faults \<Rightarrow> db \<Rightarrow> error option \<times> db" where
  "acquireAdvisoryLock F s = conn_call F AdvisoryLock s"

definition releaseAdvisoryLock :: "faults \<Rightarrow> db \<Rightarrow> error option \<times> db" where
  "releaseAdvisoryLock F s = conn_call F AdvisoryUnlock s"

text \<open>
  \<^verbatim>\<open>GetCurrentVersion\<close>: the query; \<^verbatim>\<open>ErrNoMigrations\<close> is turned into
  the empty list and nil; otherwise the rows are read (a failed query has none) and
  returned with the query's error.
\<close>

definition GetCurrentVersion :: "faults \<Rightarrow> db \<Rightarrow> (string list \<times> error option) \<times> db" where
  "GetCurrentVersion F s =
     (let (err, s1) = conn_call F SelectVersions s
      in if err = Some ErrNoMigrations then (([], None), s1)
         else if err = None then ((schema_version s1, None), s1)
         else (([], err), s1))"

text \<open>
  \<^verbatim>\<open>MigrationsToApply\<close>: the names of the loaded migrations that are not among the
  applied names, sorted (\<^verbatim>\<open>sort.Strings\<close> is the bytewise lexicographic order, so
  the order in which Go ranges over the map does not show in the result).
\<close>

definition MigrationsToApply :: "faults \<Rightarrow> Migrator \<Rightarrow> db \<Rightarrow> (string list \<times> error option) \<times> db" where
  "MigrationsToApply F m s =
     (let ((currentMigrations, err), s1) = GetCurrentVersion F s
      in if err \<noteq> None \<and> err \<noteq> Some ErrNoMigrations then (([], err), s1)
         else
           ((sort (map Name
                (filter (\<lambda>migrationCandidate. Name migrationCandidate \<notin> set currentMigrations)
                   (map snd (Migrations m)))), None), s1))"

text \<open>\<^verbatim>\<open>Position\<close>: the first index of \<open>x\<close> in \<open>a\<close>, or -1.\<close>

fun PositionFrom :: "int \<Rightarrow> string list \<Rightarrow> string \<Rightarrow> int" where
  "PositionFrom i [] x = - 1"
| "PositionFrom i (s # a) x = (if x = s then i else PositionFrom (i + 1) a x)"

definition Position :: "string list \<Rightarrow> string \<Rightarrow> int" where
  "Position a x = PositionFrom 0 a x"

text \<open>
  \<^verbatim>\<open>Reverse\<close>: the loop \<^verbatim>\<open>for i, j := 0, len(s)-1; i < j; i, j = i+1, j-1\<close>
  that swaps \<open>s[i]\<close> and \<open>s[j]\<close>.
\<close>

function ReverseLoop :: "int \<Rightarrow> int \<Rightarrow> string list \<Rightarrow> string list" where
  "ReverseLoop i j s =
     (if i < j
      then ReverseLoop (i + 1) (j - 1) (s[nat i := s ! nat j, nat j := s ! nat i])
      else s)"
  by pat_completeness auto
termination
  by (relation "measure (\<lambda>(i, j, s). nat (j - i))") auto

declare ReverseLoop.simps [simp del]

definition Reverse :: "string list \<Rightarrow> string list" where
  "Reverse s = ReverseLoop 0 (int (length s) - 1) s"

text \<open>\<^verbatim>\<open>GetDirection\<close>.\<close>

definition GetDirection ::
  "faults \<Rightarrow> Migrator \<Rightarrow> string \<Rightarrow> db \<Rightarrow> (MigraionDirection \<times> error option) \<times> db" where
  "GetDirection F m targetMigration s =
     (let ((currentMigrations, err), s1) = GetCurrentVersion F s
      in if err \<noteq> None \<and> err \<noteq> Some ErrNoMigrations then ((Back, err), s1)
         else
           (let foundNew = (lookup m targetMigration \<noteq> None)
            in if Position currentMigrations targetMigration \<ge> 0 then ((Back, None), s1)
               else if foundNew then ((Forward, None), s1)
               else ((NotFound, None), s1)))"

text \<open>\<^verbatim>\<open>markMigrationApplied\<close> and \<^verbatim>\<open>markMigrationUnapplied\<close>.\<close>

definition markMigrationApplied :: "faults \<Rightarrow> string \<Rightarrow> db \<Rightarrow> error option \<times> db" where
  "markMigrationApplied F migrationsName s = conn_call F (InsertVersion migrationsName) s"

definition markMigrationUnapplied :: "faults \<Rightarrow> string \<Rightarrow> db \<Rightarrow> error option \<times> db" where
  "markMigrationUnapplied F migrationsName s = conn_call F (DeleteVersion migrationsName) s"

subsection \<open>The loop of MigrateTo\<close>

text \<open>
  The body of one iteration, from the choice of the SQL to the commit. It returns the
  error with which \<^verbatim>\<open>MigrateTo\<close> returns from inside the iteration, or \<open>None\<close>
  when the iteration reaches the comparison with the target. \<open>tx\<close> is the transaction
  of the iteration, \<open>None\<close> under \<^verbatim>\<open>DisableTx\<close>. \<^verbatim>\<open>directionName\<close> is
  declared and never assigned, so the observer is called with the empty string.
\<close>

definition runMigration ::
  "faults \<Rightarrow> Migrator \<Rightarrow> MigraionDirection \<Rightarrow> Migration \<Rightarrow> nat option \<Rightarrow> db
     \<Rightarrow> error option \<times> db" where
  "runMigration F m direction current tx s0 =
     (let sql = (if direction = Forward then UpSQL current else DownSQL current);
          directionName = [];
          s1 = (if OnStart m
                then s0\<lparr>trace := trace s0 @
                       [OnStartCall (Sequence current) (Name current) directionName sql]\<rparr>
                else s0);
          (execErr, s2) = (if sql \<noteq> [] then conn_call F (ExecSQL sql) s1 else (None, s1))
      in case execErr of
           Some (PgError d) \<Rightarrow> (Some (MigrationPgError sql d), s2)
         | Some e \<Rightarrow> (Some e, s2)
         | None \<Rightarrow>
             (let (resetErr, s3) = conn_call F ResetAll s2;
                  (err, s4) = (if direction = Forward
                               then markMigrationApplied F (Name current) s3
                               else markMigrationUnapplied F (Name current) s3)
              in if err \<noteq> None then (err, s4)
                 else (case tx of
                         None \<Rightarrow> (None, s4)
                       | Some i \<Rightarrow> conn_call F (CommitTx i) s4)))"

text \<open>
  \<^verbatim>\<open>tx, err = m.conn.Begin(ctx)\<close> unless transactions are disabled: the error, the
  transaction and the state.
\<close>

definition beginTx :: "faults \<Rightarrow> Migrator \<Rightarrow> db \<Rightarrow> error option \<times> nat option \<times> db" where
  "beginTx F m s =
     (if DisableTx m then (None, None, s)
      else (let (err, s1) = conn_call F BeginTx s
            in if err \<noteq> None then (err, None, s1) else (None, Some (next_tx s), s1)))"

text \<open>
  \<^verbatim>\<open>defer tx.Rollback(ctx)\<close>: the call runs when \<^verbatim>\<open>MigrateTo\<close> leaves,
  after the deferred calls of the later iterations, and its result is dropped.
\<close>

definition deferredRollback :: "faults \<Rightarrow> nat option \<Rightarrow> db \<Rightarrow> db" where
  "deferredRollback F tx s =
     (case tx of None \<Rightarrow> s | Some i \<Rightarrow> snd (conn_call F (RollbackTx i) s))"

text \<open>
  \<^verbatim>\<open>for _, currentName := range migrationsToApply\<close> with the deferred rollbacks
  of the iterations that began a transaction. \<^verbatim>\<open>m.Migrations[currentName]\<close> of a
  name that is not a key is nil, and reading its field panics.
\<close>

fun runMigrations ::
  "faults \<Rightarrow> Migrator \<Rightarrow> MigraionDirection \<Rightarrow> string \<Rightarrow> string list \<Rightarrow> db \<Rightarrow> outcome \<times> db" where
  "runMigrations F m direction targetMigration [] s = (Returned None, s)"
| "runMigrations F m direction targetMigration (currentName # rest) s =
     (case lookup m currentName of
        None \<Rightarrow> (Panicked, s)
      | Some current \<Rightarrow>
          (case beginTx F m s of
             (Some e, tx, s1) \<Rightarrow> (Returned (Some e), s1)
           | (None, tx, s1) \<Rightarrow>
               (case runMigration F m direction current tx s1 of
                  (Some e, s2) \<Rightarrow> (Returned (Some e), deferredRollback F tx s2)
                | (None, s2) \<Rightarrow>
                    if targetMigration = currentName
                    then (Returned None, deferredRollback F tx s2)
                    else (case runMigrations F m direction targetMigration rest s2 of
                            (r, s3) \<Rightarrow> (r, deferredRollback F tx s3)))))"

subsection \<open>MigrateTo and Migrate\<close>

text \<open>
  \<^verbatim>\<open>MigrateTo\<close> between the acquisition of the lock and the deferred release.
  In the Back branch the slice \<^verbatim>\<open>currentMigrations[:Position(...)]\<close> panics when
  the position is -1.
\<close>

definition migrateBody :: "faults \<Rightarrow> Migrator \<Rightarrow> string \<Rightarrow> db \<Rightarrow> outcome \<times> db" where
  "migrateBody F m targetMigration s =
     (let ((direction, err), s1) = GetDirection F m targetMigration s
      in if err \<noteq> None then (Returned err, s1)
         else
           (case direction of
              Forward \<Rightarrow>
                (let ((migrationsToApply, err), s2) = MigrationsToApply F m s1
                 in if err \<noteq> None then (Returned err, s2)
                    else runMigrations F m direction targetMigration migrationsToApply s2)
            | Back \<Rightarrow>
                (let ((currentMigrations, err), s2) = GetCurrentVersion F s1
                 in if err \<noteq> None then (Returned err, s2)
                    else
                      (let reversed = Reverse currentMigrations;
                           p = Position reversed targetMigration
                       in if p < 0 then (Panicked, s2)
                          else runMigrations F m direction targetMigration
                                 (take (nat p) reversed) s2))
            | NotFound \<Rightarrow> (Returned (Some (MigrationNotFound targetMigration)), s1)))"

text \<open>
  \<^verbatim>\<open>MigrateTo\<close>: when the lock is not acquired the error is returned at once;
  otherwise the deferred function releases the lock on every way out (a panic runs the
  deferred calls too) and, when the result so far is nil, puts the error of the release
  in its place.
\<close>

definition MigrateTo :: "faults \<Rightarrow> Migrator \<Rightarrow> string \<Rightarrow> db \<Rightarrow> outcome \<times> db" where
  "MigrateTo F m targetMigration s =
     (let (lockErr, s1) = acquireAdvisoryLock F s
      in case lockErr of
           Some e \<Rightarrow> (Returned (Some e), s1)
         | None \<Rightarrow>
             (let (res, s2) = migrateBody F m targetMigration s1;
                  (unlockErr, s3) = releaseAdvisoryLock F s2
              in case res of
                   Panicked \<Rightarrow> (Panicked, s3)
                 | Returned err \<Rightarrow>
                     if err = None \<and> unlockErr \<noteq> None then (Returned unlockErr, s3)
                     else (Returned err, s3)))"

text \<open>\<^verbatim>\<open>Migrate\<close>: to the last of the pending migrations, if there is one.\<close>

definition Migrate :: "faults \<Rightarrow> Migrator \<Rightarrow> db \<Rightarrow> outcome \<times> db" where
  "Migrate F m s =
     (let ((migrations, err), s1) = MigrationsToApply F m s
      in if err \<noteq> None then (Returned err, s1)
         else if length migrations = 0 then (Returned None, s1)
         else MigrateTo F m (migrations ! (length migrations - 1)) s1)"

section \<open>Loading migrations\<close>

subsection \<open>The functions of package strings that the loader uses\<close>

text \<open>
  Strings are byte strings, as in Go. \<^verbatim>\<open>strings.HasPrefix\<close>,
  \<^verbatim>\<open>strings.HasSuffix\<close> and \<^verbatim>\<open>strings.TrimRight\<close> with a cutset of
  ASCII characters.
\<close>

definition newline :: char where
  "newline = CHR 0x0A"

definition HasPrefix :: "string \<Rightarrow> string \<Rightarrow> bool" where
  "HasPrefix s pre = (length pre \<le> length s \<and> take (length pre) s = pre)"

definition HasSuffix :: "string \<Rightarrow> string \<Rightarrow> bool" where
  "HasSuffix s suf = (length suf \<le> length s \<and> drop (length s - length suf) s = suf)"

definition TrimRight :: "string \<Rightarrow> string \<Rightarrow> string" where
  "TrimRight s cutset = rev (dropWhile (\<lambda>c. c \<in> set cutset) (rev s))"

text \<open>
  \<^verbatim>\<open>strings.TrimSpace\<close> removes the leading and the trailing white space of a
  string of UTF-8 text, as \<^verbatim>\<open>unicode.IsSpace\<close> defines it: the code points of the
  table \<^verbatim>\<open>White_Space\<close>, U+0009 to U+000D, U+0020, U+0085, U+00A0, U+1680, U+2000 to
  U+200A, U+2028, U+2029, U+202F, U+205F and U+3000.
\<close>

definition White_Space :: "nat list" where
  "White_Space =
     [0x0009, 0x000A, 0x000B, 0x000C, 0x000D, 0x0020, 0x0085, 0x00A0, 0x1680,
      0x2000, 0x2001, 0x2002, 0x2003, 0x2004, 0x2005, 0x2006, 0x2007, 0x2008, 0x2009, 0x200A,
      0x2028, 0x2029, 0x202F, 0x205F, 0x3000]"

text \<open>
  \<^verbatim>\<open>utf8.EncodeRune\<close> for the code points below U+10000: one, two or three bytes.
\<close>

definition EncodeRune :: "nat \<Rightarrow> string" where
  "EncodeRune r =
     (if r \<le> 0x7F then [char_of r]
      else if r \<le> 0x7FF then [char_of (0xC0 + r div 64), char_of (0x80 + r mod 64)]
      else [char_of (0xE0 + r div 4096), char_of (0x80 + (r div 64) mod 64),
            char_of (0x80 + r mod 64)])"

text \<open>
  The UTF-8 encodings of the code points of \<open>White_Space\<close>, in the order of the table.
\<close>

definition whiteSpace :: "string list" where
  "whiteSpace =
     [[CHR 0x09], [CHR 0x0A], [CHR 0x0B], [CHR 0x0C], [CHR 0x0D], [CHR 0x20],
      [CHR 0xC2, CHR 0x85], [CHR 0xC2, CHR 0xA0], [CHR 0xE1, CHR 0x9A, CHR 0x80],
      [CHR 0xE2, CHR 0x80, CHR 0x80], [CHR 0xE2, CHR 0x80, CHR 0x81],
      [CHR 0xE2, CHR 0x80, CHR 0x82], [CHR 0xE2, CHR 0x80, CHR 0x83],
      [CHR 0xE2, CHR 0x80, CHR 0x84], [CHR 0xE2, CHR 0x80, CHR 0x85],
      [CHR 0xE2, CHR 0x80, CHR 0x86], [CHR 0xE2, CHR 0x80, CHR 0x87],
      [CHR 0xE2, CHR 0x80, CHR 0x88], [CHR 0xE2, CHR 0x80, CHR 0x89],
      [CHR 0xE2, CHR 0x80, CHR 0x8A], [CHR 0xE2, CHR 0x80, CHR 0xA8],
      [CHR 0xE2, CHR 0x80, CHR 0xA9], [CHR 0xE2, CHR 0x80, CHR 0xAF],
      [CHR 0xE2, CHR 0x81, CHR 0x9F], [CHR 0xE3, CHR 0x80, CHR 0x80]]"

text \<open>
  Go decodes the first character of a string (\<^verbatim>\<open>utf8.DecodeRuneInString\<close>) and the
  last one (\<^verbatim>\<open>utf8.DecodeLastRuneInString\<close>); bytes that are not the UTF-8 encoding
  of a character decode to U+FFFD, which is not white space. So the first character is
  white space exactly when the string starts with the encoding of a white space code
  point, and the last one exactly when the string ends with such an encoding (the bytes
  of an encoding after its first are continuation bytes, so the search for the start of
  the last character stops at the first byte of that encoding). \<open>spaceAtStart\<close> and
  \<open>spaceAtEnd\<close> are the number of bytes of that character, 0 when the string does not
  start, or end, with white space; two encodings never start at the same place.
\<close>

definition spaceAtStart :: "string \<Rightarrow> nat" where
  "spaceAtStart s = (case filter (HasPrefix s) whiteSpace of [] \<Rightarrow> 0 | e # es \<Rightarrow> length e)"

definition spaceAtEnd :: "string \<Rightarrow> nat" where
  "spaceAtEnd s = (case filter (HasSuffix s) whiteSpace of [] \<Rightarrow> 0 | e # es \<Rightarrow> length e)"

text \<open>
  \<^verbatim>\<open>strings.TrimLeftFunc(s, unicode.IsSpace)\<close> and
  \<^verbatim>\<open>strings.TrimRightFunc(s, unicode.IsSpace)\<close>: the white space characters are
  taken off one after the other. The empty string neither starts nor ends with white
  space, so the test \<open>s = []\<close> changes nothing; it is there for the termination.
\<close>

function TrimLeftSpace :: "string \<Rightarrow> string" where
  "TrimLeftSpace s =
     (if spaceAtStart s = 0 \<or> s = [] then s else TrimLeftSpace (drop (spaceAtStart s) s))"
  by pat_completeness auto
termination
  by (relation "measure length") auto

function TrimRightSpace :: "string \<Rightarrow> string" where
  "TrimRightSpace s =
     (if spaceAtEnd s = 0 \<or> s = [] then s
      else TrimRightSpace (take (length s - spaceAtEnd s) s))"
  by pat_completeness auto
termination
  by (relation "measure length") auto

declare TrimLeftSpace.simps [simp del]

declare TrimRightSpace.simps [simp del]

text \<open>
  \<^verbatim>\<open>strings.TrimSpace\<close>: its fast path for ASCII bytes and its call of
  \<^verbatim>\<open>TrimFunc\<close> return the same string, the one without the leading white space
  and then without the trailing white space.
\<close>

definition TrimSpace :: "string \<Rightarrow> string" where
  "TrimSpace s = TrimRightSpace (TrimLeftSpace s)"

text \<open>\<^verbatim>\<open>strings.Split(s, "\n")\<close>.\<close>

fun SplitLines :: "string \<Rightarrow> string list" where
  "SplitLines [] = [[]]"
| "SplitLines (c # cs) =
     (if c = newline then [] # SplitLines cs
      else (case SplitLines cs of
              [] \<Rightarrow> [[c]]
            | l # ls \<Rightarrow> (c # l) # ls))"

text \<open>
  The text before and after the first occurrence of a separator that is not empty.
\<close>

fun cutAt :: "string \<Rightarrow> string \<Rightarrow> (string \<times> string) option" where
  "cutAt sep [] = None"
| "cutAt sep (c # cs) =
     (if HasPrefix (c # cs) sep then Some ([], drop (length sep) (c # cs))
      else (case cutAt sep cs of
              None \<Rightarrow> None
            | Some (a, b) \<Rightarrow> Some (c # a, b)))"

text \<open>\<^verbatim>\<open>strings.SplitN(s, sep, 2)\<close> and \<^verbatim>\<open>strings.Replace(s, old, "", 1)\<close>.\<close>

definition SplitN2 :: "string \<Rightarrow> string \<Rightarrow> string list" where
  "SplitN2 s sep = (case cutAt sep s of None \<Rightarrow> [s] | Some (a, b) \<Rightarrow> [a, b])"

definition RemoveFirst :: "string \<Rightarrow> string \<Rightarrow> string" where
  "RemoveFirst s old = (case cutAt old s of None \<Rightarrow> s | Some (a, b) \<Rightarrow> a @ b)"

subsection \<open>The migration name pattern\<close>

text \<open>
  \<^verbatim>\<open>migrationPattern\<close>, the regular expression \<^verbatim>\<open>\A(\d+)_.+\.sql\z\<close>: one or more digits, an underscore
  (so the digits are the longest run of digits at the start), one or more characters
  other than a line feed, and \<^verbatim>\<open>.sql\<close> at the end.
  \<^verbatim>\<open>len(FindStringSubmatch(name)) == 2\<close> holds exactly when the name matches.
\<close>

definition isDigit :: "char \<Rightarrow> bool" where
  "isDigit c = (c \<in> set ''0123456789'')"

definition migrationPattern :: "string \<Rightarrow> bool" where
  "migrationPattern name =
     (let ds = takeWhile isDigit name; rest = dropWhile isDigit name
      in ds \<noteq> [] \<and>
         (case rest of
            [] \<Rightarrow> False
          | c # r \<Rightarrow>
              c = CHR ''_'' \<and> 5 \<le> length r \<and> drop (length r - 4) r = ''.sql'' \<and>
              newline \<notin> set (take (length r - 4) r)))"

subsection \<open>The collaborators of the loader\<close>

text \<open>
  \<^verbatim>\<open>os.FileInfo\<close>, as far as it is read: \<^verbatim>\<open>Name()\<close> and \<^verbatim>\<open>IsDir()\<close>.
\<close>

record FileInfo =
  FileName :: string
  IsDir :: bool

text \<open>
  \<^verbatim>\<open>MigratorFS\<close> is an interface; a result \<open>Inl msg\<close> is an error.
\<close>

record MigratorFS =
  ReadDir :: "string \<Rightarrow> string + FileInfo list"
  ReadFile :: "string \<Rightarrow> string + string"
  Glob :: "string \<Rightarrow> string + string list"

text \<open>
  The library functions whose code is not part of the repository are parameters:
  \<^verbatim>\<open>filepath.Join\<close>, \<^verbatim>\<open>filepath.Base\<close>, and text/template over a set of
  named templates of type \<open>'ts\<close>. \<open>template_New\<close> is \<^verbatim>\<open>template.New("main")\<close>,
  \<open>template_Parse ts name text\<close> is \<^verbatim>\<open>ts.New(name).Parse(text)\<close> and
  \<open>template_Execute ts name\<close> executes the template of that name against
  \<^verbatim>\<open>m.Data\<close>.
\<close>

record 'ts golib =
  filepath_Join :: "string list \<Rightarrow> string"
  filepath_Base :: "string \<Rightarrow> string"
  template_New :: "'ts"
  template_Parse :: "'ts \<Rightarrow> string \<Rightarrow> string \<Rightarrow> string + 'ts"
  template_Execute :: "'ts \<Rightarrow> string \<Rightarrow> string + string"

subsection \<open>FindMigrationsEx and LoadMigrations\<close>

definition FindMigrationsEx :: "'ts golib \<Rightarrow> MigratorFS \<Rightarrow> string \<Rightarrow> error + string list" where
  "FindMigrationsEx L fs path0 =
     (let path = TrimRight path0 ''/''
      in case ReadDir fs path of
           Inl e \<Rightarrow> Inl (FsError e)
         | Inr fileInfos \<Rightarrow>
             Inr (map (\<lambda>fi. filepath_Join L [path, FileName fi])
                    (filter (\<lambda>fi. \<not> IsDir fi \<and> migrationPattern (FileName fi)) fileInfos)))"

text \<open>\<^verbatim>\<open>evalMigration\<close>: parse, then execute; the parsed template joins the set.\<close>

definition evalMigration :: "'ts golib \<Rightarrow> 'ts \<Rightarrow> string \<Rightarrow> string \<Rightarrow> error + (string \<times> 'ts)" where
  "evalMigration L ts name sql =
     (case template_Parse L ts name sql of
        Inl e \<Rightarrow> Inl (TemplateError e)
      | Inr ts1 \<Rightarrow>
          (case template_Execute L ts1 name of
             Inl e \<Rightarrow> Inl (TemplateError e)
           | Inr out \<Rightarrow> Inr (out, ts1)))"

text \<open>The first loop of \<^verbatim>\<open>LoadMigrations\<close>: the shared templates.\<close>

fun loadShared :: "'ts golib \<Rightarrow> MigratorFS \<Rightarrow> string \<Rightarrow> string list \<Rightarrow> 'ts \<Rightarrow> error + 'ts" where
  "loadShared L fs path [] ts = Inr ts"
| "loadShared L fs path (p # ps) ts =
     (case ReadFile fs p of
        Inl e \<Rightarrow> Inl (FsError e)
      | Inr body \<Rightarrow>
          (let name = RemoveFirst p (path @ ''/'')
           in case template_Parse L ts name body of
                Inl e \<Rightarrow> Inl (TemplateError e)
              | Inr ts1 \<Rightarrow> loadShared L fs path ps ts1))"

text \<open>
  \<^verbatim>\<open>containsSQL\<close>: some line of the rendered forward step is, once trimmed, neither
  empty nor the start of a single line comment.
\<close>

definition containsSQL :: "string \<Rightarrow> bool" where
  "containsSQL upSQL =
     list_ex (\<lambda>v. let cleanString = TrimSpace v
                  in length cleanString \<noteq> 0 \<and> \<not> HasPrefix cleanString ''--'')
       (SplitLines upSQL)"

definition separator :: string where
  "separator = ''---- create above / drop below ----''"

text \<open>
  The body of the second loop of \<^verbatim>\<open>LoadMigrations\<close>, for the file \<open>p\<close>: the error
  with which the load returns, if any, the templates and the migrator afterwards.
\<close>

definition loadMigrationFile ::
  "'ts golib \<Rightarrow> MigratorFS \<Rightarrow> string \<Rightarrow> 'ts \<Rightarrow> Migrator \<Rightarrow> error option \<times> 'ts \<times> Migrator" where
  "loadMigrationFile L fs p ts m =
     (case ReadFile fs p of
        Inl e \<Rightarrow> (Some (FsError e), ts, m)
      | Inr body \<Rightarrow>
          (let pieces = SplitN2 body separator
           in case evalMigration L ts (filepath_Base L p @ '' up'') (TrimSpace (pieces ! 0)) of
                Inl e \<Rightarrow> (Some e, ts, m)
              | Inr (upSQL, ts1) \<Rightarrow>
                  if \<not> containsSQL upSQL then (Some ErrNoFwMigration, ts1, m)
                  else if length pieces = 2
                  then (case evalMigration L ts1 (filepath_Base L p @ '' down'')
                               (TrimSpace (pieces ! 1)) of
                          Inl e \<Rightarrow> (Some e, ts1, m)
                        | Inr (downSQL, ts2) \<Rightarrow>
                            (None, ts2, AppendMigration (filepath_Base L p) upSQL downSQL m))
                  else (None, ts1, AppendMigration (filepath_Base L p) upSQL [] m)))"

fun loadMigrationFiles ::
  "'ts golib \<Rightarrow> MigratorFS \<Rightarrow> string list \<Rightarrow> 'ts \<Rightarrow> Migrator \<Rightarrow> error option \<times> Migrator" where
  "loadMigrationFiles L fs [] ts m = (None, m)"
| "loadMigrationFiles L fs (p # ps) ts m =
     (case loadMigrationFile L fs p ts m of
        (Some e, ts1, m1) \<Rightarrow> (Some e, m1)
      | (None, ts1, m1) \<Rightarrow> loadMigrationFiles L fs ps ts1 m1)"

text \<open>
  The second loop of \<^verbatim>\<open>LoadMigrations\<close> as far as it gets through a list of files:
  the templates and the migrator with which it reaches the next file, \<open>None\<close> when one
  of the files makes the load return.
\<close>

fun loadsTo ::
  "'ts golib \<Rightarrow> MigratorFS \<Rightarrow> string list \<Rightarrow> 'ts \<Rightarrow> Migrator \<Rightarrow> ('ts \<times> Migrator) option" where
  "loadsTo L fs [] ts m = Some (ts, m)"
| "loadsTo L fs (p # ps) ts m =
     (case loadMigrationFile L fs p ts m of
        (Some e, ts1, m1) \<Rightarrow> None
      | (None, ts1, m1) \<Rightarrow> loadsTo L fs ps ts1 m1)"

text \<open>
  \<^verbatim>\<open>LoadMigrations\<close>: the error and the migrator as the call leaves it (the
  migrations appended before an error stay in the map).
\<close>

definition LoadMigrations ::
  "'ts golib \<Rightarrow> MigratorFS \<Rightarrow> string \<Rightarrow> Migrator \<Rightarrow> error option \<times> Migrator" where
  "LoadMigrations L fs path0 m =
     (let path = TrimRight path0 ''/''
      in case Glob fs (filepath_Join L [path, ''*'', ''*.sql'']) of
           Inl e \<Rightarrow> (Some (FsError e), m)
         | Inr sharedPaths \<Rightarrow>
             (case loadShared L fs path sharedPaths (template_New L) of
                Inl e \<Rightarrow> (Some e, m)
              | Inr mainTmpl \<Rightarrow>
                  (case FindMigrationsEx L fs path of
                     Inl e \<Rightarrow> (Some e, m)
                   | Inr paths \<Rightarrow>
                       if length paths = 0 then (Some (NoMigrationsFoundError path), m)
                       else loadMigrationFiles L fs paths mainTmpl m)))"

text \<open>
  The caller layer, \<^verbatim>\<open>Migrate\<close> and \<^verbatim>\<open>Status\<close> of the command line program
  after \<^verbatim>\<open>LoadMigrations\<close>: it stops with "Error loading migrations" when the load
  returned an error, and with "No migrations found" when the map is empty.
\<close>

datatype cli_exit = ErrorLoadingMigrations error | NoMigrationsFound | Loaded Migrator

definition cliLoad :: "'ts golib \<Rightarrow> MigratorFS \<Rightarrow> string \<Rightarrow> Migrator \<Rightarrow> cli_exit" where
  "cliLoad L fs migrationsPath migrator =
     (case LoadMigrations L fs migrationsPath migrator of
        (Some err, m1) \<Rightarrow> ErrorLoadingMigrations err
      | (None, m1) \<Rightarrow>
          if length (Migrations m1) = 0 then NoMigrationsFound else Loaded m1)"

section \<open>Fake mode\<close>

text \<open>
  Modelled from the spec: the fake mode of the executor. The command line program calls
  \<^verbatim>\<open>migrator.EnableFake()\<close> when the flag \<^verbatim>\<open>--fake\<close> is given, but neither
  that method nor a test of the flag in \<^verbatim>\<open>MigrateTo\<close> is in the source of package
  migrate. The spec, section 4.4, step (c): "If not in fake mode and the directional
  SQL body is non-empty, execute it", and: "Fake mode: a per-invocation toggle that
  suppresses SQL execution in step (c) while preserving steps (a,b,d-g)". The
  definitions below are those of the executor with that one test added.
\<close>

definition runMigrationFake ::
  "bool \<Rightarrow> faults \<Rightarrow> Migrator \<Rightarrow> MigraionDirection \<Rightarrow> Migration \<Rightarrow> nat option \<Rightarrow> db
     \<Rightarrow> error option \<times> db" where
  "runMigrationFake fake F m direction current tx s0 =
     (let sql = (if direction = Forward then UpSQL current else DownSQL current);
          directionName = [];
          s1 = (if OnStart m
                then s0\<lparr>trace := trace s0 @
                       [OnStartCall (Sequence current) (Name current) directionName sql]\<rparr>
                else s0);
          (execErr, s2) = (if \<not> fake \<and> sql \<noteq> [] then conn_call F (ExecSQL sql) s1
                           else (None, s1))
      in case execErr of
           Some (PgError d) \<Rightarrow> (Some (MigrationPgError sql d), s2)
         | Some e \<Rightarrow> (Some e, s2)
         | None \<Rightarrow>
             (let (resetErr, s3) = conn_call F ResetAll s2;
                  (err, s4) = (if direction = Forward
                               then markMigrationApplied F (Name current) s3
                               else markMigrationUnapplied F (Name current) s3)
              in if err \<noteq> None then (err, s4)
                 else (case tx of
                         None \<Rightarrow> (None, s4)
                       | Some i \<Rightarrow> conn_call F (CommitTx i) s4)))"

text \<open>Modelled from the spec: the loop of the executor under the fake toggle.\<close>

fun runMigrationsFake ::
  "bool \<Rightarrow> faults \<Rightarrow> Migrator \<Rightarrow> MigraionDirection \<Rightarrow> string \<Rightarrow> string list \<Rightarrow> db
     \<Rightarrow> outcome \<times> db" where
  "runMigrationsFake fake F m direction targetMigration [] s = (Returned None, s)"
| "runMigrationsFake fake F m direction targetMigration (currentName # rest) s =
     (case lookup m currentName of
        None \<Rightarrow> (Panicked, s)
      | Some current \<Rightarrow>
          (case beginTx F m s of
             (Some e, tx, s1) \<Rightarrow> (Returned (Some e), s1)
           | (None, tx, s1) \<Rightarrow>
               (case runMigrationFake fake F m direction current tx s1 of
                  (Some e, s2) \<Rightarrow> (Returned (Some e), deferredRollback F tx s2)
                | (None, s2) \<Rightarrow>
                    if targetMigration = currentName
                    then (Returned None, deferredRollback F tx s2)
                    else (case runMigrationsFake fake F m direction targetMigration rest s2 of
                            (r, s3) \<Rightarrow> (r, deferredRollback F tx s3)))))"

text \<open>Modelled from the spec: steps 2 to 4 of the executor under the fake toggle.\<close>

definition migrateBodyFake :: "bool \<Rightarrow> faults \<Rightarrow> Migrator \<Rightarrow> string \<Rightarrow> db \<Rightarrow> outcome \<times> db" where
  "migrateBodyFake fake F m targetMigration s =
     (let ((direction, err), s1) = GetDirection F m targetMigration s
      in if err \<noteq> None then (Returned err, s1)
         else
           (case direction of
              Forward \<Rightarrow>
                (let ((migrationsToApply, err), s2) = MigrationsToApply F m s1
                 in if err \<noteq> None then (Returned err, s2)
                    else runMigrationsFake fake F m direction targetMigration
                           migrationsToApply s2)
            | Back \<Rightarrow>
                (let ((currentMigrations, err), s2) = GetCurrentVersion F s1
                 in if err \<noteq> None then (Returned err, s2)
                    else
                      (let reversed = Reverse currentMigrations;
                           p = Position reversed targetMigration
                       in if p < 0 then (Panicked, s2)
                          else runMigrationsFake fake F m direction targetMigration
                                 (take (nat p) reversed) s2))
            | NotFound \<Rightarrow> (Returned (Some (MigrationNotFound targetMigration)), s1)))"

text \<open>
  Modelled from the spec: \<^verbatim>\<open>migrateTo(targetName, fakeMode)\<close>, steps 1 to 5.
\<close>

definition MigrateToFake :: "bool \<Rightarrow> faults \<Rightarrow> Migrator \<Rightarrow> string \<Rightarrow> db \<Rightarrow> outcome \<times> db" where
  "MigrateToFake fake F m targetMigration s =
     (let (lockErr, s1) = acquireAdvisoryLock F s
      in case lockErr of
           Some e \<Rightarrow> (Returned (Some e), s1)
         | None \<Rightarrow>
             (let (res, s2) = migrateBodyFake fake F m targetMigration s1;
                  (unlockErr, s3) = releaseAdvisoryLock F s2
              in case res of
                   Panicked \<Rightarrow> (Panicked, s3)
                 | Returned err \<Rightarrow>
                     if err = None \<and> unlockErr \<noteq> None then (Returned unlockErr, s3)
                     else (Returned err, s3)))"

section \<open>Reading a trace\<close>

text \<open>The SQL bodies that were sent to the database, in order.\<close>

fun sql_calls :: "event list \<Rightarrow> string list" where
  "sql_calls [] = []"
| "sql_calls (Call (ExecSQL q) r # evs) = q # sql_calls evs"
| "sql_calls (ev # evs) = sql_calls evs"

text \<open>The calls of the observer, in order.\<close>

fun onstart_calls :: "event list \<Rightarrow> (32 word \<times> string \<times> string \<times> string) list" where
  "onstart_calls [] = []"
| "onstart_calls (OnStartCall n name dir q # evs) = (n, name, dir, q) # onstart_calls evs"
| "onstart_calls (ev # evs) = onstart_calls evs"

text \<open>The rows of the version table that were written, in order: the calls of
  \<^verbatim>\<open>markMigrationApplied\<close> and \<^verbatim>\<open>markMigrationUnapplied\<close> that succeeded.\<close>

fun version_calls :: "event list \<Rightarrow> stmt list" where
  "version_calls [] = []"
| "version_calls (Call (InsertVersion n) None # evs) = InsertVersion n # version_calls evs"
| "version_calls (Call (DeleteVersion n) None # evs) = DeleteVersion n # version_calls evs"
| "version_calls (ev # evs) = version_calls evs"

text \<open>
  The part of a traversal that the loop of \<^verbatim>\<open>MigrateTo\<close> goes through when
  nothing fails: up to the target and the target itself, or all of it when the target
  is not in it.
\<close>

definition upto_target :: "string \<Rightarrow> string list \<Rightarrow> string list" where
  "upto_target t names =
     takeWhile (\<lambda>n. n \<noteq> t) names @ take 1 (dropWhile (\<lambda>n. n \<noteq> t) names)"

text \<open>
  A migration map as \<^verbatim>\<open>AppendMigration\<close> builds it: every key once, and every
  migration stored under its own name.
\<close>

definition wf_migrations :: "Migrator \<Rightarrow> bool" where
  "wf_migrations m =
     (distinct (map fst (Migrations m)) \<and> map (\<lambda>kv. Name (snd kv)) (Migrations m) = map fst (Migrations m))"

section \<open>Example inputs\<close>

definition newMigrator :: Migrator where
  "newMigrator = \<lparr>DisableTx = False, Migrations = [], OnStart = True\<rparr>"

definition emptyDB :: db where
  "emptyDB = \<lparr>schema_version = [], executed = [], lock_held = 0, open_tx = None,
              next_tx = 0, trace = []\<rparr>"

text \<open>The three migrations of the test suite, the second one without a down step.\<close>

definition threeMigrations :: Migrator where
  "threeMigrations =
     AppendMigration ''migration_3'' ''create table t3(id serial primary key);''
       ''drop table if exists t3;''
       (AppendMigration ''migration_2'' ''create table t2(id serial primary key);'' []
          (AppendMigration ''migration_1'' ''create table t1(id serial primary key);''
             ''drop table if exists t1;'' newMigrator))"

text \<open>The database after the three migrations were applied in order.\<close>

definition allApplied :: db where
  "allApplied = emptyDB\<lparr>schema_version := [''migration_1'', ''migration_2'', ''migration_3'']\<rparr>"

text \<open>A connection on which everything succeeds but the release of the lock.\<close>

definition unlock_fails :: faults where
  "unlock_fails = (\<lambda>s st. if st = AdvisoryUnlock then Some (ConnError ''connection lost'') else None)"

text \<open>
  A small instance of the library functions: paths joined with a slash, the base name
  after the last slash, and templates that are plain text and render to themselves.
\<close>

definition plainLib :: "(string \<times> string) list golib" where
  "plainLib =
     \<lparr>filepath_Join = (\<lambda>parts. case parts of [] \<Rightarrow> [] | p # ps \<Rightarrow> foldl (\<lambda>a b. a @ ''/'' @ b) p ps),
      filepath_Base = (\<lambda>p. rev (takeWhile (\<lambda>c. c \<noteq> CHR ''/'') (rev p))),
      template_New = [],
      template_Parse = (\<lambda>ts name body. Inr ((name, body) # ts)),
      template_Execute = (\<lambda>ts name. case map_of ts name of
                                        None \<Rightarrow> Inl ''template not defined''
                                      | Some body \<Rightarrow> Inr body)\<rparr>"

text \<open>A directory that can be read and holds no migration file.\<close>

definition noMigrationsFS :: MigratorFS where
  "noMigrationsFS =
     \<lparr>ReadDir = (\<lambda>d. Inr [\<lparr>FileName = ''README.md'', IsDir = False\<rparr>,
                          \<lparr>FileName = ''001_shared.sql'', IsDir = True\<rparr>]),
      ReadFile = (\<lambda>p. Inl ''no such file''),
      Glob = (\<lambda>p. Inr [])\<rparr>"

text \<open>
  A directory with one migration file: a forward step of comments and blank lines only
  in the first case, a forward step with SQL and an empty down step in the second.
\<close>

definition oneFileFS :: "string \<Rightarrow> MigratorFS" where
  "oneFileFS body =
     \<lparr>ReadDir = (\<lambda>d. Inr [\<lparr>FileName = ''001_create_t1.sql'', IsDir = False\<rparr>]),
      ReadFile = (\<lambda>p. if p = ''migrations/001_create_t1.sql'' then Inr body
                       else Inl ''no such file''),
      Glob = (\<lambda>p. Inr [])\<rparr>"

definition commentsOnly :: string where
  "commentsOnly = ''-- create t1'' @ [newline] @ ''   '' @ [newline] @ ''  -- later'' @ [newline] @
     separator @ [newline] @ ''drop table t1;''"

definition blankDown :: string where
  "blankDown = ''create table t1(id serial primary key);'' @ [newline] @ separator @ [newline] @ ''  ''"

text \<open>
  A forward step of white space that is not ASCII (a line with U+00A0, a comment, a line
  with U+2003 and a space), and a forward step with SQL between comments and blank lines.
\<close>

definition nbspOnly :: string where
  "nbspOnly = [CHR 0xC2, CHR 0xA0] @ [newline] @ ''-- nothing yet'' @ [newline] @
     [CHR 0xE2, CHR 0x80, CHR 0x83, CHR 0x20]"

definition commentThenSQL :: string where
  "commentThenSQL = ''-- create t1'' @ [newline] @ ''   '' @ [newline] @
     ''create table t1(id serial primary key);'' @ [newline] @ ''-- done''"

text \<open>A directory with two migration files and a file that is not a migration.\<close>

definition twoFilesFS :: "string \<Rightarrow> string \<Rightarrow> MigratorFS" where
  "twoFilesFS body1 body2 =
     \<lparr>ReadDir = (\<lambda>d. Inr [\<lparr>FileName = ''001_create_t1.sql'', IsDir = False\<rparr>,
                          \<lparr>FileName = ''notes.txt'', IsDir = False\<rparr>,
                          \<lparr>FileName = ''002_create_t2.sql'', IsDir = False\<rparr>]),
      ReadFile = (\<lambda>p. if p = ''migrations/001_create_t1.sql'' then Inr body1
                       else if p = ''migrations/002_create_t2.sql'' then Inr body2
                       else Inl ''no such file''),
      Glob = (\<lambda>p. Inr [])\<rparr>"



section \<open>Properties\<close>

subsection \<open>Reverse and Position\<close>

lemma ReverseLoop_length: "length (ReverseLoop i j s) = length s"
proof (induction i j s rule: ReverseLoop.induct)
  case (1 i j s)
  then show ?case by (subst ReverseLoop.simps) simp
qed

lemma ReverseLoop_nth:
  "0 \<le> i \<Longrightarrow> j < int (length s) \<Longrightarrow> k < length s \<Longrightarrow>
   ReverseLoop i j s ! k =
     (if i \<le> int k \<and> int k \<le> j then s ! nat (i + j - int k) else s ! k)"
proof (induction i j s arbitrary: k rule: ReverseLoop.induct)
  case (1 i j s)
  show ?case
  proof (cases "i < j")
    case False
    then have "ReverseLoop i j s = s" by (subst ReverseLoop.simps) simp
    moreover from False have "i \<le> int k \<and> int k \<le> j \<Longrightarrow> nat (i + j - int k) = k" by linarith
    ultimately show ?thesis by auto
  next
    case True
    let ?s' = "s[nat i := s ! nat j, nat j := s ! nat i]"
    have eq: "ReverseLoop i j s = ReverseLoop (i + 1) (j - 1) ?s'"
      using True by (subst ReverseLoop.simps) simp
    have ih: "ReverseLoop (i + 1) (j - 1) ?s' ! k =
        (if i + 1 \<le> int k \<and> int k \<le> j - 1 then ?s' ! nat (i + 1 + (j - 1) - int k) else ?s' ! k)"
      using "1.IH"[OF True, of k] "1.prems" by simp
    show ?thesis
      unfolding eq ih using True "1.prems"
      by (auto simp: nth_list_update nat_eq_iff)
  qed
qed

lemma Reverse_rev: "Reverse s = rev s"
proof (rule nth_equalityI)
  show "length (Reverse s) = length (rev s)" by (simp add: Reverse_def ReverseLoop_length)
next
  fix k assume "k < length (Reverse s)"
  then have k: "k < length s" by (simp add: Reverse_def ReverseLoop_length)
  then have "Reverse s ! k = s ! nat (int (length s) - 1 - int k)"
    unfolding Reverse_def by (subst ReverseLoop_nth) auto
  also have "nat (int (length s) - 1 - int k) = length s - Suc k" using k by linarith
  finally show "Reverse s ! k = rev s ! k" using k by (simp add: rev_nth)
qed

lemma PositionFrom_found:
  "x \<in> set a \<Longrightarrow> PositionFrom i a x = i + int (length (takeWhile (\<lambda>y. y \<noteq> x) a))"
  by (induction a arbitrary: i) auto

lemma PositionFrom_missing: "x \<notin> set a \<Longrightarrow> PositionFrom i a x = - 1"
  by (induction a arbitrary: i) auto

lemma Position_nonneg: "(0 \<le> Position a x) = (x \<in> set a)"
  by (cases "x \<in> set a") (simp_all add: Position_def PositionFrom_found PositionFrom_missing)

lemma take_Position: "x \<in> set a \<Longrightarrow> take (nat (Position a x)) a = takeWhile (\<lambda>y. y \<noteq> x) a"
  by (simp add: Position_def PositionFrom_found takeWhile_eq_take[symmetric])

subsection \<open>Calls on the connection\<close>

lemma version_calls_append: "version_calls (a @ b) = version_calls a @ version_calls b"
  by (induction a rule: version_calls.induct) simp_all

lemma conn_call_trace:
  "conn_call F st s = (r, s') \<Longrightarrow> trace s' = trace s @ [Call st r]"
  by (auto simp: conn_call_def split: option.splits prod.splits)

lemma conn_call_ok:
  "conn_call F st s = (None, s') \<Longrightarrow>
   \<exists>s''. effect st s = (None, s'') \<and> s' = s''\<lparr>trace := trace s @ [Call st None]\<rparr>"
  by (auto simp: conn_call_def split: option.splits prod.splits)

lemma conn_call_keeps:
  assumes "conn_call F st s = (r, s')"
    and "st \<in> {AdvisoryLock, AdvisoryUnlock, SelectVersions, ResetAll}"
  shows "schema_version s' = schema_version s" "executed s' = executed s"
    "open_tx s' = open_tx s" "next_tx s' = next_tx s"
  using assms by (auto simp: conn_call_def split: option.splits prod.splits)

lemma conn_call_ExecSQL:
  assumes "conn_call F (ExecSQL q) s = (r, s')"
  shows "schema_version s' = schema_version s" 
    "executed s' = (if r = None then executed s @ [q] else executed s)"
    "open_tx s' = open_tx s" "next_tx s' = next_tx s"
  using assms by (auto simp: conn_call_def split: option.splits prod.splits)

lemma conn_call_Insert:
  assumes "conn_call F (InsertVersion n) s = (r, s')"
  shows "schema_version s' = (if r = None then schema_version s @ [n] else schema_version s)" 
    "executed s' = executed s"
    "open_tx s' = open_tx s" "next_tx s' = next_tx s"
  using assms by (auto simp: conn_call_def split: option.splits prod.splits)

lemma conn_call_Delete:
  assumes "conn_call F (DeleteVersion n) s = (r, s')"
  shows "schema_version s' = (if r = None then filter (\<lambda>x. x \<noteq> n) (schema_version s) else schema_version s)" 
    "executed s' = executed s"
    "open_tx s' = open_tx s" "next_tx s' = next_tx s"
  using assms by (auto simp: conn_call_def split: option.splits prod.splits)

lemma conn_call_Commit:
  assumes "conn_call F (CommitTx i) s = (r, s')"
  shows "schema_version s' = schema_version s" 
    "executed s' = executed s"
    "r = None \<Longrightarrow> open_tx s' = None"
  using assms by (auto simp: conn_call_def split: option.splits prod.splits if_splits)

lemma conn_call_Begin:
  assumes "conn_call F BeginTx s = (r, s')"
  shows "schema_version s' = schema_version s" 
    "executed s' = executed s"
  using assms by (auto simp: conn_call_def split: option.splits prod.splits if_splits)

lemma deferredRollback_closed:
  assumes "tx = None \<or> open_tx s = None"
  shows "schema_version (deferredRollback F tx s) = schema_version s"
    "executed (deferredRollback F tx s) = executed s"
    "open_tx (deferredRollback F tx s) = open_tx s"
  using assms by (auto simp: deferredRollback_def conn_call_def split: option.splits prod.splits if_splits)

lemma runMigration_ok:
  assumes "runMigration F m d c tx s = (None, s')"
  shows "schema_version s' =
           (if d = Forward then schema_version s @ [Name c]
            else filter (\<lambda>x. x \<noteq> Name c) (schema_version s))"
    and "executed s' = executed s @ filter (\<lambda>q. q \<noteq> []) [if d = Forward then UpSQL c else DownSQL c]"
    and "open_tx s' = (if tx = None then open_tx s else None)"
    and "version_calls (trace s') = version_calls (trace s) @
           [if d = Forward then InsertVersion (Name c) else DeleteVersion (Name c)]"
proof -
  let ?sql = "if d = Forward then UpSQL c else DownSQL c"
  let ?s1 = "if OnStart m
                then s\<lparr>trace := trace s @ [OnStartCall (Sequence c) (Name c) [] ?sql]\<rparr>
                else s"
  obtain execErr s2 where ex: "(if ?sql \<noteq> [] then conn_call F (ExecSQL ?sql) ?s1 else (None, ?s1)) = (execErr, s2)"
    by (cases "if ?sql \<noteq> [] then conn_call F (ExecSQL ?sql) ?s1 else (None, ?s1)") 
  obtain resetErr s3 where rs: "conn_call F ResetAll s2 = (resetErr, s3)"
    by (cases "conn_call F ResetAll s2")
  obtain err s4 where mk: "(if d = Forward then markMigrationApplied F (Name c) s3
                               else markMigrationUnapplied F (Name c) s3) = (err, s4)"
    by (cases "if d = Forward then markMigrationApplied F (Name c) s3
                               else markMigrationUnapplied F (Name c) s3")
  from assms have e0: "execErr = None"
    unfolding runMigration_def Let_def ex by (auto split: option.splits error.splits)
  with assms have e1: "err = None"
    unfolding runMigration_def Let_def ex by (simp add: rs mk split: if_splits)
  from assms e0 e1 have fin: "(case tx of None \<Rightarrow> (None, s4) | Some i \<Rightarrow> conn_call F (CommitTx i) s4) = (None, s')"
    unfolding runMigration_def Let_def ex by (simp add: rs mk)
  have s2: "schema_version s2 = schema_version s" "executed s2 = executed s @ filter (\<lambda>q. q \<noteq> []) [?sql]"
     "open_tx s2 = open_tx s"
    using ex e0 by (auto split: if_splits dest: conn_call_ExecSQL)
  have s3: "schema_version s3 = schema_version s2" "executed s3 = executed s2" "open_tx s3 = open_tx s2"
    using conn_call_keeps[OF rs] by simp_all
  have s4: "schema_version s4 = (if d = Forward then schema_version s3 @ [Name c]
            else filter (\<lambda>x. x \<noteq> Name c) (schema_version s3))" "executed s4 = executed s3" "open_tx s4 = open_tx s3"
    using mk e1 by (auto simp: markMigrationApplied_def markMigrationUnapplied_def split: if_splits dest: conn_call_Insert conn_call_Delete)
  have s5: "schema_version s' = schema_version s4" "executed s' = executed s4" "open_tx s' = (if tx = None then open_tx s4 else None)"
    using fin by (auto split: option.splits dest: conn_call_Commit)
  show "schema_version s' =
           (if d = Forward then schema_version s @ [Name c]
            else filter (\<lambda>x. x \<noteq> Name c) (schema_version s))" using s2 s3 s4 s5 by simp
  show "executed s' = executed s @ filter (\<lambda>q. q \<noteq> []) [if d = Forward then UpSQL c else DownSQL c]"
     using s2 s3 s4 s5 by simp
  show "open_tx s' = (if tx = None then open_tx s else None)" using s2 s3 s4 s5 by simp
  have t1: "version_calls (trace ?s1) = version_calls (trace s)"
    by (simp add: version_calls_append)
  have t2: "version_calls (trace s2) = version_calls (trace ?s1)"
    using ex by (auto split: if_splits dest!: conn_call_trace simp: version_calls_append)
  have t3: "version_calls (trace s3) = version_calls (trace s2)"
    using rs by (auto dest!: conn_call_trace simp: version_calls_append)
  have t4: "version_calls (trace s4) = version_calls (trace s3) @
           [if d = Forward then InsertVersion (Name c) else DeleteVersion (Name c)]"
    using mk e1 by (auto simp: markMigrationApplied_def markMigrationUnapplied_def version_calls_append
        split: if_splits dest!: conn_call_trace)
  have t5: "version_calls (trace s') = version_calls (trace s4)"
    using fin by (auto split: option.splits dest!: conn_call_trace simp: version_calls_append)
  show "version_calls (trace s') = version_calls (trace s) @
           [if d = Forward then InsertVersion (Name c) else DeleteVersion (Name c)]"
    using t1 t2 t3 t4 t5 by simp
qed


lemma deferredRollback_version_calls:
  "version_calls (trace (deferredRollback F tx s)) = version_calls (trace s)"
  by (cases tx; cases "conn_call F (RollbackTx (the tx)) s")
     (auto simp: deferredRollback_def version_calls_append dest!: conn_call_trace)

lemma beginTx_ok:
  assumes "beginTx F m s = (None, tx, s1)"
  shows "schema_version s1 = schema_version s" "executed s1 = executed s"
    "(tx = None) = DisableTx m" "DisableTx m \<Longrightarrow> s1 = s"
    "version_calls (trace s1) = version_calls (trace s)"
proof -
  show a: "(tx = None) = DisableTx m" and "DisableTx m \<Longrightarrow> s1 = s"
    using assms by (auto simp: beginTx_def Let_def split: if_splits prod.splits)
  have "DisableTx m \<or> conn_call F BeginTx s = (None, s1)"
    using assms by (auto simp: beginTx_def Let_def split: if_splits prod.splits)
  then show "schema_version s1 = schema_version s" "executed s1 = executed s"
    "version_calls (trace s1) = version_calls (trace s)"
    using conn_call_Begin[of F s None s1] conn_call_trace[of F BeginTx s None s1]
      \<open>DisableTx m \<Longrightarrow> s1 = s\<close>
    by (auto simp: version_calls_append)
qed

lemma upto_target_Cons:
  "upto_target t (n # ns) = (if t = n then [n] else n # upto_target t ns)"
  by (auto simp: upto_target_def)

lemma upto_target_Nil: "upto_target t [] = []"
  by (simp add: upto_target_def)

lemma runMigrations_ok:
  "runMigrations F m d t names s = (Returned None, s') \<Longrightarrow>
   (\<forall>n \<in> set (upto_target t names). lookup m n \<noteq> None) \<and>
   schema_version s' =
     foldl (\<lambda>vs n. if d = Forward then vs @ [n] else filter (\<lambda>x. x \<noteq> n) vs) (schema_version s)
       (map (\<lambda>n. Name (the (lookup m n))) (upto_target t names)) \<and>
   executed s' = executed s @
     filter (\<lambda>q. q \<noteq> [])
       (map (\<lambda>n. if d = Forward then UpSQL (the (lookup m n)) else DownSQL (the (lookup m n)))
          (upto_target t names)) \<and>
   open_tx s' = (if DisableTx m \<or> names = [] then open_tx s else None) \<and>
   version_calls (trace s') = version_calls (trace s) @
     map (\<lambda>n. if d = Forward then InsertVersion (Name (the (lookup m n)))
               else DeleteVersion (Name (the (lookup m n)))) (upto_target t names)"
proof (induction names arbitrary: s s')
  case Nil
  then show ?case by (simp add: upto_target_Nil)
next
  case (Cons n rest)
  from Cons.prems obtain c where c: "lookup m n = Some c"
    by (cases "lookup m n") auto
  obtain be tx s1 where b: "beginTx F m s = (be, tx, s1)"
    by (cases "beginTx F m s") auto
  from Cons.prems c b have be: "be = None" by (cases be) auto
  obtain re s2 where r: "runMigration F m d c tx s1 = (re, s2)"
    by (cases "runMigration F m d c tx s1") auto
  from Cons.prems c b be r have re: "re = None" by (cases re) auto
  note B = beginTx_ok[OF b[unfolded be]]
  note R = runMigration_ok[OF r[unfolded re]]
  have closed: "tx = None \<or> open_tx s2 = None" using R(3) by auto
  show ?case
  proof (cases "t = n")
    case True
    with Cons.prems c b be r re have s': "s' = deferredRollback F tx s2" by simp
    show ?thesis
      unfolding s' using True c B R closed
      by (simp add: upto_target_Cons deferredRollback_closed deferredRollback_version_calls)
  next
    case False
    obtain r3 s3 where rec: "runMigrations F m d t rest s2 = (r3, s3)"
      by (cases "runMigrations F m d t rest s2") auto
    with Cons.prems c b be r re False have r3: "r3 = Returned None" and s': "s' = deferredRollback F tx s3"
      by auto
    note IH = Cons.IH[OF rec[unfolded r3]]
    have closed3: "tx = None \<or> open_tx s3 = None" using IH R(3) by auto
    show ?thesis
      unfolding s' using False c B R IH closed3
      by (auto simp add: upto_target_Cons deferredRollback_closed deferredRollback_version_calls)
  qed
qed

subsection \<open>The queries and the lock\<close>

lemma sql_calls_append: "sql_calls (a @ b) = sql_calls a @ sql_calls b"
  by (induction a rule: sql_calls.induct) simp_all

lemma onstart_calls_append: "onstart_calls (a @ b) = onstart_calls a @ onstart_calls b"
  by (induction a rule: onstart_calls.induct) simp_all

lemma GetCurrentVersion_state:
  assumes "GetCurrentVersion F s = (r, s')"
  shows "schema_version s' = schema_version s" "executed s' = executed s"
    "open_tx s' = open_tx s"
    "version_calls (trace s') = version_calls (trace s)"
    "sql_calls (trace s') = sql_calls (trace s)"
    "\<exists>q. trace s' = trace s @ [Call SelectVersions q]"
proof -
  obtain e s1 where c: "conn_call F SelectVersions s = (e, s1)"
    by (cases "conn_call F SelectVersions s")
  with assms have s': "s' = s1" by (auto simp: GetCurrentVersion_def split: if_splits)
  show "schema_version s' = schema_version s" "executed s' = executed s" "open_tx s' = open_tx s"
    using conn_call_keeps[OF c] s' by simp_all
  show "version_calls (trace s') = version_calls (trace s)" "sql_calls (trace s') = sql_calls (trace s)"
    "\<exists>q. trace s' = trace s @ [Call SelectVersions q]"
    using conn_call_trace[OF c] s' by (simp_all add: version_calls_append sql_calls_append)
qed

lemma GetCurrentVersion_rows:
  assumes "GetCurrentVersion F s = ((cur, err), s')"
  shows "cur = schema_version s \<or> cur = []"
    and "err \<noteq> Some ErrNoMigrations"
    and "F s SelectVersions \<noteq> Some ErrNoMigrations \<Longrightarrow> err = None \<Longrightarrow> cur = schema_version s"
proof -
  obtain e s1 where c: "conn_call F SelectVersions s = (e, s1)"
    by (cases "conn_call F SelectVersions s")
  have sv: "schema_version s1 = schema_version s" using conn_call_keeps(1)[OF c] by simp
  have e: "F s SelectVersions \<noteq> Some ErrNoMigrations \<Longrightarrow> e \<noteq> Some ErrNoMigrations"
    using c by (cases "F s SelectVersions") (auto simp: conn_call_def)
  from assms c sv show "cur = schema_version s \<or> cur = []"
    by (simp add: GetCurrentVersion_def split: if_splits)
  from assms c show "err \<noteq> Some ErrNoMigrations"
    by (auto simp add: GetCurrentVersion_def split: if_splits)
  from assms c sv e show "F s SelectVersions \<noteq> Some ErrNoMigrations \<Longrightarrow> err = None \<Longrightarrow> cur = schema_version s"
    by (auto simp add: GetCurrentVersion_def split: if_splits)
qed

lemma GetDirection_state:
  assumes "GetDirection F m t s = (r, s')"
  shows "schema_version s' = schema_version s" "executed s' = executed s"
    "open_tx s' = open_tx s"
    "version_calls (trace s') = version_calls (trace s)"
    "sql_calls (trace s') = sql_calls (trace s)"
    "\<exists>q. trace s' = trace s @ [Call SelectVersions q]"
proof -
  obtain r1 s1 where c: "GetCurrentVersion F s = (r1, s1)"
    by (cases "GetCurrentVersion F s")
  with assms have s': "s' = s1"
    by (cases r1) (auto simp: GetDirection_def Let_def split: if_splits)
  show "schema_version s' = schema_version s" "executed s' = executed s" "open_tx s' = open_tx s"
    "version_calls (trace s') = version_calls (trace s)" "sql_calls (trace s') = sql_calls (trace s)"
    "\<exists>q. trace s' = trace s @ [Call SelectVersions q]"
    using GetCurrentVersion_state[OF c] s' by simp_all
qed

lemma GetDirection_result:
  "fst (GetDirection F m t s) =
     (case fst (GetCurrentVersion F s) of
        (cur, None) \<Rightarrow>
          (if t \<in> set cur then Back else if lookup m t \<noteq> None then Forward else NotFound, None)
      | (cur, Some e) \<Rightarrow> (Back, Some e))"
proof -
  obtain cur err s1 where c: "GetCurrentVersion F s = ((cur, err), s1)"
    by (cases "GetCurrentVersion F s") auto
  have "err \<noteq> Some ErrNoMigrations" using GetCurrentVersion_rows(2)[OF c] .
  then show ?thesis
    by (cases err) (simp_all add: GetDirection_def c Let_def Position_nonneg)
qed

lemma MigrationsToApply_state:
  assumes "MigrationsToApply F m s = (r, s')"
  shows "schema_version s' = schema_version s" "executed s' = executed s"
    "open_tx s' = open_tx s"
    "version_calls (trace s') = version_calls (trace s)"
    "sql_calls (trace s') = sql_calls (trace s)"
proof -
  obtain r1 s1 where c: "GetCurrentVersion F s = (r1, s1)"
    by (cases "GetCurrentVersion F s")
  with assms have s': "s' = s1"
    by (cases r1) (auto simp: MigrationsToApply_def Let_def split: if_splits)
  show "schema_version s' = schema_version s" "executed s' = executed s" "open_tx s' = open_tx s"
    "version_calls (trace s') = version_calls (trace s)" "sql_calls (trace s') = sql_calls (trace s)"
    using GetCurrentVersion_state[OF c] s' by simp_all
qed

lemma lock_state:
  assumes "conn_call F st s = (r, s')" and "st = AdvisoryLock \<or> st = AdvisoryUnlock"
  shows "schema_version s' = schema_version s" "executed s' = executed s"
    "open_tx s' = open_tx s"
    "version_calls (trace s') = version_calls (trace s)"
    "sql_calls (trace s') = sql_calls (trace s)"
  using conn_call_keeps[OF assms(1)] conn_call_trace[OF assms(1)] assms(2)
  by (auto simp: version_calls_append sql_calls_append)

text \<open>What a successful call of MigrateTo went through.\<close>

lemma MigrateTo_ok:
  assumes "fst (MigrateTo F m t s) = Returned None"
  shows "fst (acquireAdvisoryLock F s) = None"
    and "fst (migrateBody F m t (snd (acquireAdvisoryLock F s))) = Returned None"
    and "releaseAdvisoryLock F (snd (migrateBody F m t (snd (acquireAdvisoryLock F s))))
           = (None, snd (MigrateTo F m t s))"
proof -
  obtain lockErr s1 where a: "acquireAdvisoryLock F s = (lockErr, s1)"
    by (cases "acquireAdvisoryLock F s")
  obtain res s2 where b: "migrateBody F m t s1 = (res, s2)"
    by (cases "migrateBody F m t s1")
  obtain unlockErr s3 where u: "releaseAdvisoryLock F s2 = (unlockErr, s3)"
    by (cases "releaseAdvisoryLock F s2")
  from assms show l: "fst (acquireAdvisoryLock F s) = None"
    by (cases lockErr) (simp_all add: MigrateTo_def a)
  then have le: "lockErr = None" using a by simp
  from assms have r: "res = Returned None"
    unfolding MigrateTo_def a le by (cases res) (auto simp: b u split: if_splits)
  then show "fst (migrateBody F m t (snd (acquireAdvisoryLock F s))) = Returned None"
    using a b by simp
  from assms have "unlockErr = None"
    unfolding MigrateTo_def a le by (simp add: b u r split: if_splits)
  then show "releaseAdvisoryLock F (snd (migrateBody F m t (snd (acquireAdvisoryLock F s))))
           = (None, snd (MigrateTo F m t s))"
    by (simp add: MigrateTo_def a le b u r)
qed

lemma wf_lookup:
  assumes "wf_migrations m"
  shows "lookup m n = Some c \<Longrightarrow> Name c = n"
    and "(lookup m n \<noteq> None) = (n \<in> fst ` set (Migrations m))"
proof -
  have *: "\<forall>kv \<in> set (Migrations m). Name (snd kv) = fst kv"
    using assms by (simp add: wf_migrations_def map_eq_conv)
  show "lookup m n = Some c \<Longrightarrow> Name c = n"
  proof -
    assume "lookup m n = Some c"
    then have "(n, c) \<in> set (Migrations m)" by (simp add: lookup_def map_of_SomeD)
    with * show "Name c = n" by fastforce
  qed
  show "(lookup m n \<noteq> None) = (n \<in> fst ` set (Migrations m))"
    by (simp add: lookup_def map_of_eq_None_iff)
qed

subsection \<open>Direction resolution\<close>

text \<open>
  C3. Direction resolution: with the applied names that the version query returned,
  the direction is Back when the target is among them, otherwise Forward when the
  target is a key of the loaded migrations, otherwise NotFound (and when the query
  failed, the error is returned). A call of MigrateTo whose target resolves to NotFound
  returns the migration-not-found error for that target, and between taking and
  releasing the lock it made the one version query and nothing else: no migration ran,
  no version row was written, the observer was not called.
\<close>

theorem GetDirection_resolution:
  "fst (GetDirection F m t s) =
     (case fst (GetCurrentVersion F s) of
        (applied, None) \<Rightarrow>
          (if t \<in> set applied then Back
           else if t \<in> fst ` set (Migrations m) then Forward
           else NotFound, None)
      | (applied, Some e) \<Rightarrow> (Back, Some e)) \<and>
   (fst (acquireAdvisoryLock F s) = None \<and>
    fst (GetDirection F m t (snd (acquireAdvisoryLock F s))) = (NotFound, None) \<longrightarrow>
      fst (MigrateTo F m t s) = Returned (Some (MigrationNotFound t)) \<and>
      schema_version (snd (MigrateTo F m t s)) = schema_version s \<and>
      executed (snd (MigrateTo F m t s)) = executed s \<and>
      (\<exists>q u. trace (snd (MigrateTo F m t s)) =
         trace s @ [Call AdvisoryLock None, Call SelectVersions q, Call AdvisoryUnlock u]))"
proof (intro conjI impI)
  show "fst (GetDirection F m t s) =
     (case fst (GetCurrentVersion F s) of
        (applied, None) \<Rightarrow>
          (if t \<in> set applied then Back
           else if t \<in> fst ` set (Migrations m) then Forward
           else NotFound, None)
      | (applied, Some e) \<Rightarrow> (Back, Some e))"
    by (simp add: GetDirection_result lookup_def map_of_eq_None_iff)
next
  assume h: "fst (acquireAdvisoryLock F s) = None \<and>
    fst (GetDirection F m t (snd (acquireAdvisoryLock F s))) = (NotFound, None)"
  obtain s1 where a: "acquireAdvisoryLock F s = (None, s1)"
    using h by (cases "acquireAdvisoryLock F s") auto
  obtain s2 where d: "GetDirection F m t s1 = ((NotFound, None), s2)"
    using h a by (cases "GetDirection F m t s1") auto
  have b: "migrateBody F m t s1 = (Returned (Some (MigrationNotFound t)), s2)"
    by (simp add: migrateBody_def d)
  obtain u s3 where r: "releaseAdvisoryLock F s2 = (u, s3)"
    by (cases "releaseAdvisoryLock F s2")
  have res: "MigrateTo F m t s = (Returned (Some (MigrationNotFound t)), s3)"
    by (simp add: MigrateTo_def a b r)
  have a': "conn_call F AdvisoryLock s = (None, s1)" using a by (simp add: acquireAdvisoryLock_def)
  have r': "conn_call F AdvisoryUnlock s2 = (u, s3)" using r by (simp add: releaseAdvisoryLock_def)
  obtain q where q: "trace s2 = trace s1 @ [Call SelectVersions q]"
    using GetDirection_state(6)[OF d] by blast
  show "fst (MigrateTo F m t s) = Returned (Some (MigrationNotFound t))"
    by (simp add: res)
  show "schema_version (snd (MigrateTo F m t s)) = schema_version s"
    using lock_state(1)[OF a'] lock_state(1)[OF r'] GetDirection_state(1)[OF d] by (simp add: res)
  show "executed (snd (MigrateTo F m t s)) = executed s"
    using lock_state(2)[OF a'] lock_state(2)[OF r'] GetDirection_state(2)[OF d] by (simp add: res)
  show "\<exists>q u. trace (snd (MigrateTo F m t s)) =
         trace s @ [Call AdvisoryLock None, Call SelectVersions q, Call AdvisoryUnlock u]"
    using conn_call_trace[OF a'] conn_call_trace[OF r'] q by (simp add: res)
qed

theorem GetDirection_resolution_witness:
  "fst (acquireAdvisoryLock no_faults emptyDB) = None \<and>
   fst (GetDirection no_faults threeMigrations ''migration_4''
          (snd (acquireAdvisoryLock no_faults emptyDB))) = (NotFound, None) \<and>
   fst (MigrateTo no_faults threeMigrations ''migration_4'' emptyDB) =
     Returned (Some (MigrationNotFound ''migration_4'')) \<and>
   schema_version (snd (MigrateTo no_faults threeMigrations ''migration_4'' emptyDB)) = []"
proof -
  have h1: "fst (acquireAdvisoryLock no_faults emptyDB) = None" by code_simp
  have h2: "fst (GetDirection no_faults threeMigrations ''migration_4''
          (snd (acquireAdvisoryLock no_faults emptyDB))) = (NotFound, None)" by code_simp
  have e: "schema_version emptyDB = []" by (simp add: emptyDB_def)
  from GetDirection_resolution[of no_faults threeMigrations "''migration_4''" emptyDB] h1 h2 e
  show ?thesis by simp
qed

subsection \<open>The Back traversal\<close>

lemma foldl_delete:
  "foldl (\<lambda>vs n. filter (\<lambda>x. x \<noteq> n) vs) vs ns = filter (\<lambda>x. x \<notin> set ns) vs"
  by (induction ns arbitrary: vs) (auto intro: filter_cong)

lemma foldl_insert: "foldl (\<lambda>vs n. vs @ [n]) vs ns = vs @ ns"
  by (induction ns arbitrary: vs) auto

lemma split_at_target:
  "t \<in> set xs \<Longrightarrow> \<exists>rest. xs = takeWhile (\<lambda>y. y \<noteq> t) xs @ t # rest"
  by (induction xs) auto

lemma upto_target_absent: "t \<notin> set names \<Longrightarrow> upto_target t names = names"
  by (induction names) (auto simp: upto_target_Cons upto_target_Nil)

lemma upto_target_present:
  "t \<in> set names \<Longrightarrow> upto_target t names = takeWhile (\<lambda>n. n \<noteq> t) names @ [t]"
  by (induction names) (auto simp: upto_target_Cons upto_target_Nil)

lemma wf_names:
  assumes "wf_migrations m" and "\<forall>n \<in> set names. lookup m n \<noteq> None"
  shows "map (\<lambda>n. Name (the (lookup m n))) names = names"
  using assms(2) wf_lookup(1)[OF assms(1)] by (induction names) auto

text \<open>What a successful run of the Back branch went through.\<close>

lemma migrateBody_Back:
  assumes d: "fst (GetDirection F m t s) = (Back, None)"
    and ok: "fst (migrateBody F m t s) = Returned None"
  shows "t \<in> set (schema_version s)"
    and "\<exists>s2. schema_version s2 = schema_version s \<and> executed s2 = executed s \<and>
           version_calls (trace s2) = version_calls (trace s) \<and>
           runMigrations F m Back t
             (take (nat (Position (rev (schema_version s)) t)) (rev (schema_version s))) s2
             = (Returned None, snd (migrateBody F m t s))"
proof -
  obtain s1 where g: "GetDirection F m t s = ((Back, None), s1)"
    using d by (cases "GetDirection F m t s") auto
  obtain cur1 err1 s0 where c1: "GetCurrentVersion F s = ((cur1, err1), s0)"
    by (cases "GetCurrentVersion F s") auto
  from d have "err1 = None \<and> t \<in> set cur1"
    by (cases err1) (auto simp: GetDirection_result c1 split: if_splits)
  then show t: "t \<in> set (schema_version s)"
    using GetCurrentVersion_rows(1)[OF c1] by auto
  obtain cur err s2 where c: "GetCurrentVersion F s1 = ((cur, err), s2)"
    by (cases "GetCurrentVersion F s1") auto
  from ok have err: "err = None"
    by (cases err) (auto simp: migrateBody_def g c)
  from ok have p: "0 \<le> Position (Reverse cur) t"
    by (auto simp: migrateBody_def g c err Let_def split: if_splits)
  then have "t \<in> set cur" by (simp add: Position_nonneg Reverse_rev)
  then have cur: "cur = schema_version s"
    using GetCurrentVersion_rows(1)[OF c] GetDirection_state(1)[OF g] by auto
  from ok p have run: "runMigrations F m Back t
      (take (nat (Position (rev (schema_version s)) t)) (rev (schema_version s))) s2
      = (Returned None, snd (migrateBody F m t s))"
    by (auto simp: migrateBody_def g c err cur Let_def Reverse_rev intro: prod_eqI)
  show "\<exists>s2. schema_version s2 = schema_version s \<and> executed s2 = executed s \<and>
           version_calls (trace s2) = version_calls (trace s) \<and>
           runMigrations F m Back t
             (take (nat (Position (rev (schema_version s)) t)) (rev (schema_version s))) s2
             = (Returned None, snd (migrateBody F m t s))"
    using run GetCurrentVersion_state[OF c] GetDirection_state[OF g] by (intro exI[of _ s2]) simp
qed

text \<open>
  C1. A call of MigrateTo that resolved its target to Back and returned nil went
  through the applied names reversed, cut strictly before the first position of the
  target in the reversed list: the version rows it deleted are those names in that
  order, they are exactly the names applied after the (last row of the) target, the
  target is not among them, and afterwards the target is the last applied name.
\<close>

theorem MigrateTo_Back_traversal:
  assumes lock: "fst (acquireAdvisoryLock F s) = None"
    and dir: "fst (GetDirection F m t (snd (acquireAdvisoryLock F s))) = (Back, None)"
    and ok: "fst (MigrateTo F m t s) = Returned None"
    and wf: "wf_migrations m"
  shows "t \<in> set (schema_version s) \<and>
    (\<exists>traversal before.
      traversal = take (nat (Position (rev (schema_version s)) t)) (rev (schema_version s)) \<and>
      schema_version s = before @ [t] @ rev traversal \<and>
      t \<notin> set traversal \<and>
      version_calls (trace (snd (MigrateTo F m t s))) =
        version_calls (trace s) @ map DeleteVersion traversal \<and>
      executed (snd (MigrateTo F m t s)) =
        executed s @ filter (\<lambda>q. q \<noteq> []) (map (\<lambda>n. DownSQL (the (lookup m n))) traversal) \<and>
      schema_version (snd (MigrateTo F m t s)) = filter (\<lambda>x. x \<notin> set traversal) before @ [t]) \<and>
    last (schema_version (snd (MigrateTo F m t s))) = t"
proof -
  let ?applied = "schema_version s"
  let ?trav = "take (nat (Position (rev ?applied) t)) (rev ?applied)"
  let ?s' = "snd (MigrateTo F m t s)"
  obtain s1 where a: "conn_call F AdvisoryLock s = (None, s1)"
    using lock by (cases "conn_call F AdvisoryLock s") (auto simp: acquireAdvisoryLock_def)
  have s1: "snd (acquireAdvisoryLock F s) = s1" using a by (simp add: acquireAdvisoryLock_def)
  note A = lock_state[OF a]
  have bok: "fst (migrateBody F m t s1) = Returned None"
    using MigrateTo_ok(2)[OF ok] s1 by simp
  have rel: "conn_call F AdvisoryUnlock (snd (migrateBody F m t s1)) = (None, ?s')"
    using MigrateTo_ok(3)[OF ok] s1 by (simp add: releaseAdvisoryLock_def)
  note R = lock_state[OF rel]
  have t1: "t \<in> set (schema_version s1)"
    using migrateBody_Back(1)[OF dir[unfolded s1] bok] .
  then have t: "t \<in> set ?applied" using A by simp
  obtain s2 where s2: "schema_version s2 = schema_version s1" "executed s2 = executed s1"
      "version_calls (trace s2) = version_calls (trace s1)"
    and run: "runMigrations F m Back t
             (take (nat (Position (rev (schema_version s1)) t)) (rev (schema_version s1))) s2
             = (Returned None, snd (migrateBody F m t s1))"
    using migrateBody_Back(2)[OF dir[unfolded s1] bok] by blast
  have run': "runMigrations F m Back t ?trav s2 = (Returned None, snd (migrateBody F m t s1))"
    using run A by simp
  have trav: "?trav = takeWhile (\<lambda>y. y \<noteq> t) (rev ?applied)"
    using t by (simp add: take_Position)
  have notin: "t \<notin> set ?trav"
    unfolding trav by (auto dest: set_takeWhileD)
  have up: "upto_target t ?trav = ?trav" using notin by (rule upto_target_absent)
  note L = runMigrations_ok[OF run', unfolded up]
  have names: "map (\<lambda>n. Name (the (lookup m n))) ?trav = ?trav"
    using wf_names[OF wf] L by blast
  define trav where "trav = ?trav"
  obtain rest where rest: "rev ?applied = trav @ t # rest"
    using split_at_target[of t "rev ?applied"] t trav by (auto simp: trav_def)
  have "rev (rev ?applied) = rev (trav @ t # rest)" by (simp only: rest)
  then have dec: "?applied = rev rest @ [t] @ rev trav" by simp
  have notin': "t \<notin> set trav" using notin by (simp add: trav_def)
  have "schema_version ?s' = filter (\<lambda>x. x \<notin> set ?trav) ?applied"
    using L names R s2 A by (simp add: foldl_delete)
  then have sv: "schema_version ?s' = filter (\<lambda>x. x \<notin> set trav) ?applied"
    by (simp only: trav_def)
  have sv': "schema_version ?s' = filter (\<lambda>x. x \<notin> set trav) (rev rest) @ [t]"
    by (subst sv, subst dec) (use notin' in simp)
  have vc: "version_calls (trace ?s') = version_calls (trace s) @ map DeleteVersion trav"
  proof -
    have "map (\<lambda>n. DeleteVersion (Name (the (lookup m n)))) ?trav
          = map DeleteVersion (map (\<lambda>n. Name (the (lookup m n))) ?trav)"
      by (simp add: comp_def)
    then show ?thesis using L R s2 A names by (simp add: trav_def)
  qed
  have ex: "executed ?s' = executed s @ filter (\<lambda>q. q \<noteq> []) (map (\<lambda>n. DownSQL (the (lookup m n))) trav)"
    using L R s2 A by (simp add: trav_def)
  have "\<exists>traversal before.
      traversal = ?trav \<and>
      schema_version s = before @ [t] @ rev traversal \<and>
      t \<notin> set traversal \<and>
      version_calls (trace ?s') = version_calls (trace s) @ map DeleteVersion traversal \<and>
      executed ?s' =
        executed s @ filter (\<lambda>q. q \<noteq> []) (map (\<lambda>n. DownSQL (the (lookup m n))) traversal) \<and>
      schema_version ?s' = filter (\<lambda>x. x \<notin> set traversal) before @ [t]"
  proof (rule exI[of _ trav], rule exI[of _ "rev rest"], intro conjI)
    show "trav = ?trav" by (simp only: trav_def)
  qed (use dec notin' vc ex sv' in simp_all)
  moreover have "last (schema_version ?s') = t" by (simp add: sv')
  ultimately show ?thesis using t by blast
qed


theorem MigrateTo_Back_traversal_witness:
  "fst (acquireAdvisoryLock no_faults allApplied) = None \<and>
   fst (GetDirection no_faults threeMigrations ''migration_1''
          (snd (acquireAdvisoryLock no_faults allApplied))) = (Back, None) \<and>
   fst (MigrateTo no_faults threeMigrations ''migration_1'' allApplied) = Returned None \<and>
   wf_migrations threeMigrations \<and>
   last (schema_version (snd (MigrateTo no_faults threeMigrations ''migration_1'' allApplied)))
     = ''migration_1''"
proof -
  have h1: "fst (acquireAdvisoryLock no_faults allApplied) = None" by code_simp
  have h2: "fst (GetDirection no_faults threeMigrations ''migration_1''
          (snd (acquireAdvisoryLock no_faults allApplied))) = (Back, None)" by code_simp
  have h3: "fst (MigrateTo no_faults threeMigrations ''migration_1'' allApplied) = Returned None"
    by code_simp
  have h4: "wf_migrations threeMigrations" by code_simp
  from MigrateTo_Back_traversal[OF h1 h2 h3 h4]
  have "last (schema_version (snd (MigrateTo no_faults threeMigrations ''migration_1'' allApplied)))
     = ''migration_1''" by (rule conjunct2[THEN conjunct2])
  with h1 h2 h3 h4 show ?thesis by (intro conjI)
qed

subsection \<open>The Forward traversal\<close>

lemma pending_sorted:
  assumes "wf_migrations m"
  shows "sort (map Name (filter (\<lambda>c. Name c \<notin> A) (map snd (Migrations m))))
         = sorted_list_of_set (fst ` set (Migrations m) - A)"
proof -
  let ?ms = "Migrations m"
  have names: "map (\<lambda>kv. Name (snd kv)) ?ms = map fst ?ms" and dist: "distinct (map fst ?ms)"
    using assms by (simp_all add: wf_migrations_def)
  have "map Name (filter (\<lambda>c. Name c \<notin> A) (map snd ?ms))
        = filter (\<lambda>n. n \<notin> A) (map (\<lambda>kv. Name (snd kv)) ?ms)"
    by (simp add: filter_map comp_def)
  also have "\<dots> = filter (\<lambda>n. n \<notin> A) (map fst ?ms)" by (simp only: names)
  finally have eq: "map Name (filter (\<lambda>c. Name c \<notin> A) (map snd ?ms))
        = filter (\<lambda>n. n \<notin> A) (map fst ?ms)" .
  have d: "distinct (filter (\<lambda>n. n \<notin> A) (map fst ?ms))" using dist by simp
  have s: "set (filter (\<lambda>n. n \<notin> A) (map fst ?ms)) = fst ` set ?ms - A" by auto
  define xs where "xs = filter (\<lambda>n. n \<notin> A) (map fst ?ms)"
  have "sorted_list_of_set (set xs) = sort (remdups xs)"
    by (rule sorted_list_of_set_sort_remdups)
  also have "remdups xs = xs" using d unfolding xs_def by (rule distinct_remdups_id)
  finally have "sorted_list_of_set (set xs) = sort xs" .
  then show ?thesis unfolding xs_def by (simp only: eq s)
qed

text \<open>What a successful run of the Forward branch went through.\<close>

lemma migrateBody_Forward:
  assumes d: "fst (GetDirection F m t s) = (Forward, None)"
    and ok: "fst (migrateBody F m t s) = Returned None"
    and honest: "\<forall>s'. F s' SelectVersions \<noteq> Some ErrNoMigrations"
  shows "t \<notin> set (schema_version s)" and "lookup m t \<noteq> None"
    and "\<exists>s2. schema_version s2 = schema_version s \<and> executed s2 = executed s \<and>
           version_calls (trace s2) = version_calls (trace s) \<and>
           runMigrations F m Forward t
             (sort (map Name (filter (\<lambda>c. Name c \<notin> set (schema_version s))
                (map snd (Migrations m))))) s2
             = (Returned None, snd (migrateBody F m t s))"
proof -
  obtain s1 where g: "GetDirection F m t s = ((Forward, None), s1)"
    using d by (cases "GetDirection F m t s") auto
  obtain cur1 err1 s0 where c1: "GetCurrentVersion F s = ((cur1, err1), s0)"
    by (cases "GetCurrentVersion F s") auto
  from d have r: "err1 = None \<and> t \<notin> set cur1 \<and> lookup m t \<noteq> None"
    by (cases err1) (auto simp: GetDirection_result c1 split: if_splits)
  then have "cur1 = schema_version s"
    using GetCurrentVersion_rows(3)[OF c1] honest by blast
  with r show "t \<notin> set (schema_version s)" and "lookup m t \<noteq> None" by simp_all
  obtain cur err s2 where c: "GetCurrentVersion F s1 = ((cur, err), s2)"
    by (cases "GetCurrentVersion F s1") auto
  have ne: "err \<noteq> Some ErrNoMigrations" using GetCurrentVersion_rows(2)[OF c] .
  from ok ne have err: "err = None"
    by (cases err) (auto simp: migrateBody_def g MigrationsToApply_def c)
  have cur: "cur = schema_version s"
    using GetCurrentVersion_rows(3)[OF c] honest err GetDirection_state(1)[OF g] by simp
  from ok have run: "runMigrations F m Forward t
             (sort (map Name (filter (\<lambda>c. Name c \<notin> set (schema_version s))
                (map snd (Migrations m))))) s2
             = (Returned None, snd (migrateBody F m t s))"
    by (auto simp: migrateBody_def g MigrationsToApply_def c err cur intro: prod_eqI)
  show "\<exists>s2. schema_version s2 = schema_version s \<and> executed s2 = executed s \<and>
           version_calls (trace s2) = version_calls (trace s) \<and>
           runMigrations F m Forward t
             (sort (map Name (filter (\<lambda>c. Name c \<notin> set (schema_version s))
                (map snd (Migrations m))))) s2
             = (Returned None, snd (migrateBody F m t s))"
    using run GetCurrentVersion_state[OF c] GetDirection_state[OF g] by (intro exI[of _ s2]) simp
qed

text \<open>
  C2. A call of MigrateTo that resolved its target to Forward and returned nil, on a
  connection whose version query tells the applied names, applied the pending names
  (the keys of the loaded migrations that are not applied, in ascending order) from the
  first one up to the target and stopped there: the version rows inserted, the SQL
  executed and the names appended to the version table are those of that prefix, in
  that order.
\<close>

theorem MigrateTo_Forward_traversal:
  assumes lock: "fst (acquireAdvisoryLock F s) = None"
    and dir: "fst (GetDirection F m t (snd (acquireAdvisoryLock F s))) = (Forward, None)"
    and ok: "fst (MigrateTo F m t s) = Returned None"
    and wf: "wf_migrations m"
    and honest: "\<forall>s'. F s' SelectVersions \<noteq> Some ErrNoMigrations"
  shows "\<exists>pending traversal.
      pending = sorted_list_of_set (fst ` set (Migrations m) - set (schema_version s)) \<and>
      t \<in> set pending \<and>
      traversal = takeWhile (\<lambda>n. n \<noteq> t) pending @ [t] \<and>
      version_calls (trace (snd (MigrateTo F m t s))) =
        version_calls (trace s) @ map InsertVersion traversal \<and>
      executed (snd (MigrateTo F m t s)) =
        executed s @ filter (\<lambda>q. q \<noteq> []) (map (\<lambda>n. UpSQL (the (lookup m n))) traversal) \<and>
      schema_version (snd (MigrateTo F m t s)) = schema_version s @ traversal"
proof -
  let ?s' = "snd (MigrateTo F m t s)"
  define pending where "pending = sorted_list_of_set (fst ` set (Migrations m) - set (schema_version s))"
  define trav where "trav = takeWhile (\<lambda>n. n \<noteq> t) pending @ [t]"
  obtain s1 where a: "conn_call F AdvisoryLock s = (None, s1)"
    using lock by (cases "conn_call F AdvisoryLock s") (auto simp: acquireAdvisoryLock_def)
  have s1: "snd (acquireAdvisoryLock F s) = s1" using a by (simp add: acquireAdvisoryLock_def)
  note A = lock_state[OF a]
  have bok: "fst (migrateBody F m t s1) = Returned None"
    using MigrateTo_ok(2)[OF ok] s1 by simp
  have rel: "conn_call F AdvisoryUnlock (snd (migrateBody F m t s1)) = (None, ?s')"
    using MigrateTo_ok(3)[OF ok] s1 by (simp add: releaseAdvisoryLock_def)
  note R = lock_state[OF rel]
  note B = migrateBody_Forward[OF dir[unfolded s1] bok honest]
  have tn: "t \<notin> set (schema_version s)" using B(1) A by simp
  have tk: "t \<in> fst ` set (Migrations m)" using B(2) wf_lookup(2)[OF wf] by simp
  have fin: "finite (fst ` set (Migrations m) - set (schema_version s))" by simp
  have tp: "t \<in> set pending" unfolding pending_def using tn tk fin by simp
  obtain s2 where s2: "schema_version s2 = schema_version s1" "executed s2 = executed s1"
      "version_calls (trace s2) = version_calls (trace s1)"
    and run: "runMigrations F m Forward t
             (sort (map Name (filter (\<lambda>c. Name c \<notin> set (schema_version s1))
                (map snd (Migrations m))))) s2
             = (Returned None, snd (migrateBody F m t s1))"
    using B(3) by blast
  have "sort (map Name (filter (\<lambda>c. Name c \<notin> set (schema_version s1)) (map snd (Migrations m))))
        = pending"
    unfolding pending_def using pending_sorted[OF wf] A by simp
  with run have run': "runMigrations F m Forward t pending s2
             = (Returned None, snd (migrateBody F m t s1))" by simp
  have up: "upto_target t pending = trav"
    unfolding trav_def using tp by (rule upto_target_present)
  note L = runMigrations_ok[OF run', unfolded up]
  have names: "map (\<lambda>n. Name (the (lookup m n))) trav = trav"
    using wf_names[OF wf] L by blast
  have sv: "schema_version ?s' = schema_version s @ trav"
    using L names R s2 A by (simp add: foldl_insert)
  have vc: "version_calls (trace ?s') = version_calls (trace s) @ map InsertVersion trav"
  proof -
    have "map (\<lambda>n. InsertVersion (Name (the (lookup m n)))) trav
          = map InsertVersion (map (\<lambda>n. Name (the (lookup m n))) trav)"
      by (simp add: comp_def)
    then show ?thesis using L R s2 A names by simp
  qed
  have ex: "executed ?s' = executed s @ filter (\<lambda>q. q \<noteq> []) (map (\<lambda>n. UpSQL (the (lookup m n))) trav)"
    using L R s2 A by simp
  show ?thesis
  proof (rule exI[of _ pending], rule exI[of _ trav], intro conjI)
    show "pending = sorted_list_of_set (fst ` set (Migrations m) - set (schema_version s))"
      by (simp only: pending_def)
    show "trav = takeWhile (\<lambda>n. n \<noteq> t) pending @ [t]" by (simp only: trav_def)
  qed (use tp vc ex sv in simp_all)
qed

theorem MigrateTo_Forward_traversal_witness:
  "fst (acquireAdvisoryLock no_faults emptyDB) = None \<and>
   fst (GetDirection no_faults threeMigrations ''migration_2''
          (snd (acquireAdvisoryLock no_faults emptyDB))) = (Forward, None) \<and>
   fst (MigrateTo no_faults threeMigrations ''migration_2'' emptyDB) = Returned None \<and>
   wf_migrations threeMigrations \<and>
   schema_version (snd (MigrateTo no_faults threeMigrations ''migration_2'' emptyDB)) =
     [''migration_1'', ''migration_2'']"
proof -
  have h1: "fst (acquireAdvisoryLock no_faults emptyDB) = None" by code_simp
  have h2: "fst (GetDirection no_faults threeMigrations ''migration_2''
          (snd (acquireAdvisoryLock no_faults emptyDB))) = (Forward, None)" by code_simp
  have h3: "fst (MigrateTo no_faults threeMigrations ''migration_2'' emptyDB) = Returned None"
    by code_simp
  have h4: "wf_migrations threeMigrations" by code_simp
  have h5: "\<forall>s'. no_faults s' SelectVersions \<noteq> Some ErrNoMigrations"
    by (simp add: no_faults_def)
  obtain pending traversal where
    p: "pending = sorted_list_of_set (fst ` set (Migrations threeMigrations) - set (schema_version emptyDB))"
    and t: "traversal = takeWhile (\<lambda>n. n \<noteq> ''migration_2'') pending @ [''migration_2'']"
    and sv: "schema_version (snd (MigrateTo no_faults threeMigrations ''migration_2'' emptyDB))
       = schema_version emptyDB @ traversal"
    using MigrateTo_Forward_traversal[OF h1 h2 h3 h4 h5] by blast
  have "sorted_list_of_set (fst ` set (Migrations threeMigrations) - set (schema_version emptyDB))
        = [''migration_1'', ''migration_2'', ''migration_3'']" by code_simp
  with p t sv have "schema_version (snd (MigrateTo no_faults threeMigrations ''migration_2'' emptyDB)) =
     [''migration_1'', ''migration_2'']" by (simp add: emptyDB_def)
  with h1 h2 h3 h4 show ?thesis by (intro conjI)
qed

subsection \<open>The release of the lock\<close>

text \<open>
  C7. A call of MigrateTo that acquired the advisory lock calls the release of the lock
  as the last thing it does, whatever the way out (a returned error, nil or a panic).
  When nothing failed before, the result of the call is the result of the release, so
  that a failed release is the error returned although every migration succeeded; an
  earlier error is returned as it is.
\<close>

theorem MigrateTo_releases_lock:
  assumes "fst (acquireAdvisoryLock F s) = None"
  shows "snd (MigrateTo F m t s) =
           snd (releaseAdvisoryLock F (snd (migrateBody F m t (snd (acquireAdvisoryLock F s))))) \<and>
         trace (snd (MigrateTo F m t s)) =
           trace (snd (migrateBody F m t (snd (acquireAdvisoryLock F s)))) @
           [Call AdvisoryUnlock
              (fst (releaseAdvisoryLock F (snd (migrateBody F m t (snd (acquireAdvisoryLock F s))))))] \<and>
         fst (MigrateTo F m t s) =
           (case fst (migrateBody F m t (snd (acquireAdvisoryLock F s))) of
              Panicked \<Rightarrow> Panicked
            | Returned (Some e) \<Rightarrow> Returned (Some e)
            | Returned None \<Rightarrow>
                Returned (fst (releaseAdvisoryLock F
                  (snd (migrateBody F m t (snd (acquireAdvisoryLock F s)))))))"
proof -
  obtain s1 where a: "acquireAdvisoryLock F s = (None, s1)"
    using assms by (cases "acquireAdvisoryLock F s") auto
  obtain res s2 where b: "migrateBody F m t s1 = (res, s2)"
    by (cases "migrateBody F m t s1")
  obtain u s3 where r: "releaseAdvisoryLock F s2 = (u, s3)"
    by (cases "releaseAdvisoryLock F s2")
  have tr: "trace s3 = trace s2 @ [Call AdvisoryUnlock u]"
    using r conn_call_trace[of F AdvisoryUnlock s2 u s3] by (simp add: releaseAdvisoryLock_def)
  have st: "snd (MigrateTo F m t s) = s3"
    by (cases res) (auto simp: MigrateTo_def a b r)
  have out: "fst (MigrateTo F m t s) =
      (case res of Panicked \<Rightarrow> Panicked | Returned (Some e) \<Rightarrow> Returned (Some e)
       | Returned None \<Rightarrow> Returned u)"
    by (cases res) (auto simp: MigrateTo_def a b r split: option.splits)
  have e1: "migrateBody F m t (snd (acquireAdvisoryLock F s)) = (res, s2)"
    by (simp add: a b)
  show ?thesis unfolding e1 snd_conv fst_conv r using st tr out by simp
qed

theorem MigrateTo_releases_lock_witness:
  "fst (acquireAdvisoryLock unlock_fails emptyDB) = None \<and>
   fst (MigrateTo unlock_fails threeMigrations ''migration_1'' emptyDB) =
     Returned (Some (ConnError ''connection lost'')) \<and>
   schema_version (snd (MigrateTo unlock_fails threeMigrations ''migration_1'' emptyDB)) =
     [''migration_1'']"
proof -
  have h: "fst (acquireAdvisoryLock unlock_fails emptyDB) = None" by code_simp
  have b: "fst (migrateBody unlock_fails threeMigrations ''migration_1''
             (snd (acquireAdvisoryLock unlock_fails emptyDB))) = Returned None" by code_simp
  have u: "fst (releaseAdvisoryLock unlock_fails
             (snd (migrateBody unlock_fails threeMigrations ''migration_1''
                (snd (acquireAdvisoryLock unlock_fails emptyDB))))) =
           Some (ConnError ''connection lost'')" by code_simp
  have v: "schema_version (snd (releaseAdvisoryLock unlock_fails
             (snd (migrateBody unlock_fails threeMigrations ''migration_1''
                (snd (acquireAdvisoryLock unlock_fails emptyDB)))))) = [''migration_1'']"
    by code_simp
  from MigrateTo_releases_lock[OF h, of threeMigrations "''migration_1''"] b u v
  have "fst (MigrateTo unlock_fails threeMigrations ''migration_1'' emptyDB) =
     Returned (Some (ConnError ''connection lost'')) \<and>
   schema_version (snd (MigrateTo unlock_fails threeMigrations ''migration_1'' emptyDB)) =
     [''migration_1'']" by simp
  with h show ?thesis by (intro conjI) simp_all
qed

lemma AppendMigration_wf:
  assumes "wf_migrations m"
  shows "wf_migrations (AppendMigration name upSQL downSQL m)"
proof -
  have gen: "map (\<lambda>kv. Name (snd kv)) ms = map fst ms \<Longrightarrow> Name c = k \<Longrightarrow>
     map (\<lambda>kv. Name (snd kv)) (AList.update k c ms) = map fst (AList.update k c ms)" for ms k c
    by (induction ms) auto
  show ?thesis
    using assms
    by (simp add: wf_migrations_def AppendMigration_def distinct_update gen)
qed

subsection \<open>Panics of MigrateTo\<close>














subsection \<open>Two runs of the executor\<close>

text \<open>
  C5. Reverting past a migration without a down step. The three migrations are applied
  and \<open>migration_2\<close> has the empty down step. MigrateTo to \<open>migration_1\<close> returns nil,
  not the irreversible-migration error: it runs the down step of \<open>migration_3\<close>, runs
  nothing for \<open>migration_2\<close> and deletes the version rows of both.
\<close>

theorem empty_down_step_is_unapplied:
  "DownSQL (the (lookup threeMigrations ''migration_2'')) = [] \<and>
   fst (MigrateTo no_faults threeMigrations ''migration_1'' allApplied) = Returned None \<and>
   sql_calls (trace (snd (MigrateTo no_faults threeMigrations ''migration_1'' allApplied))) =
     [''drop table if exists t3;''] \<and>
   version_calls (trace (snd (MigrateTo no_faults threeMigrations ''migration_1'' allApplied))) =
     [DeleteVersion ''migration_3'', DeleteVersion ''migration_2''] \<and>
   schema_version (snd (MigrateTo no_faults threeMigrations ''migration_1'' allApplied)) =
     [''migration_1'']"
  by code_simp

text \<open>
  C9. The direction label that the observer receives. With the observer set, a Forward
  run to \<open>migration_1\<close> on the empty database and a Back run to \<open>migration_2\<close> on the
  database with all three applied each call the observer once, with the sequence number,
  the name and the SQL of the migration, and with the empty string as the direction
  label, neither "up" nor "down".
\<close>

theorem observer_gets_empty_direction:
  "OnStart threeMigrations \<and>
   onstart_calls (trace (snd (MigrateTo no_faults threeMigrations ''migration_1'' emptyDB))) =
     [(1, ''migration_1'', [], ''create table t1(id serial primary key);'')] \<and>
   onstart_calls (trace (snd (MigrateTo no_faults threeMigrations ''migration_2'' allApplied))) =
     [(3, ''migration_3'', [], ''drop table if exists t3;'')]"
  by code_simp

subsection \<open>Fake mode\<close>

lemma runMigrationFake_ok:
  assumes "runMigrationFake fake F m d c tx s = (None, s')"
  shows "schema_version s' =
           (if d = Forward then schema_version s @ [Name c]
            else filter (\<lambda>x. x \<noteq> Name c) (schema_version s))"
    and "executed s' = executed s @
           (if fake then [] else filter (\<lambda>q. q \<noteq> []) [if d = Forward then UpSQL c else DownSQL c])"
    and "open_tx s' = (if tx = None then open_tx s else None)"
    and "version_calls (trace s') = version_calls (trace s) @
           [if d = Forward then InsertVersion (Name c) else DeleteVersion (Name c)]"
proof -
  let ?sql = "if d = Forward then UpSQL c else DownSQL c"
  let ?s1 = "if OnStart m
                then s\<lparr>trace := trace s @ [OnStartCall (Sequence c) (Name c) [] ?sql]\<rparr>
                else s"
  obtain execErr s2 where ex:
    "(if \<not> fake \<and> ?sql \<noteq> [] then conn_call F (ExecSQL ?sql) ?s1 else (None, ?s1)) = (execErr, s2)"
    by (cases "if \<not> fake \<and> ?sql \<noteq> [] then conn_call F (ExecSQL ?sql) ?s1 else (None, ?s1)")
  obtain resetErr s3 where rs: "conn_call F ResetAll s2 = (resetErr, s3)"
    by (cases "conn_call F ResetAll s2")
  obtain err s4 where mk: "(if d = Forward then markMigrationApplied F (Name c) s3
                               else markMigrationUnapplied F (Name c) s3) = (err, s4)"
    by (cases "if d = Forward then markMigrationApplied F (Name c) s3
                               else markMigrationUnapplied F (Name c) s3")
  from assms have e0: "execErr = None"
    unfolding runMigrationFake_def Let_def ex by (auto split: option.splits error.splits)
  with assms have e1: "err = None"
    unfolding runMigrationFake_def Let_def ex by (simp add: rs mk split: if_splits)
  from assms e0 e1 have fin:
    "(case tx of None \<Rightarrow> (None, s4) | Some i \<Rightarrow> conn_call F (CommitTx i) s4) = (None, s')"
    unfolding runMigrationFake_def Let_def ex by (simp add: rs mk)
  have s2: "schema_version s2 = schema_version s"
    "executed s2 = executed s @ (if fake then [] else filter (\<lambda>q. q \<noteq> []) [?sql])"
    "open_tx s2 = open_tx s"
    using ex e0 by (auto split: if_splits dest: conn_call_ExecSQL)
  have s3: "schema_version s3 = schema_version s2" "executed s3 = executed s2"
    "open_tx s3 = open_tx s2"
    using conn_call_keeps[OF rs] by simp_all
  have s4: "schema_version s4 = (if d = Forward then schema_version s3 @ [Name c]
            else filter (\<lambda>x. x \<noteq> Name c) (schema_version s3))"
    "executed s4 = executed s3" "open_tx s4 = open_tx s3"
    using mk e1
    by (auto simp: markMigrationApplied_def markMigrationUnapplied_def split: if_splits
        dest: conn_call_Insert conn_call_Delete)
  have s5: "schema_version s' = schema_version s4" "executed s' = executed s4"
    "open_tx s' = (if tx = None then open_tx s4 else None)"
    using fin by (auto split: option.splits dest: conn_call_Commit)
  show "schema_version s' =
           (if d = Forward then schema_version s @ [Name c]
            else filter (\<lambda>x. x \<noteq> Name c) (schema_version s))" using s2 s3 s4 s5 by simp
  show "executed s' = executed s @
           (if fake then [] else filter (\<lambda>q. q \<noteq> []) [if d = Forward then UpSQL c else DownSQL c])"
     using s2 s3 s4 s5 by simp
  show "open_tx s' = (if tx = None then open_tx s else None)" using s2 s3 s4 s5 by simp
  have t1: "version_calls (trace ?s1) = version_calls (trace s)"
    by (simp add: version_calls_append)
  have t2: "version_calls (trace s2) = version_calls (trace ?s1)"
    using ex by (auto split: if_splits dest!: conn_call_trace simp: version_calls_append)
  have t3: "version_calls (trace s3) = version_calls (trace s2)"
    using rs by (auto dest!: conn_call_trace simp: version_calls_append)
  have t4: "version_calls (trace s4) = version_calls (trace s3) @
           [if d = Forward then InsertVersion (Name c) else DeleteVersion (Name c)]"
    using mk e1
    by (auto simp: markMigrationApplied_def markMigrationUnapplied_def version_calls_append
        split: if_splits dest!: conn_call_trace)
  have t5: "version_calls (trace s') = version_calls (trace s4)"
    using fin by (auto split: option.splits dest!: conn_call_trace simp: version_calls_append)
  show "version_calls (trace s') = version_calls (trace s) @
           [if d = Forward then InsertVersion (Name c) else DeleteVersion (Name c)]"
    using t1 t2 t3 t4 t5 by simp
qed

lemma runMigrationsFake_ok:
  "runMigrationsFake fake F m d t names s = (Returned None, s') \<Longrightarrow>
   (\<forall>n \<in> set (upto_target t names). lookup m n \<noteq> None) \<and>
   schema_version s' =
     foldl (\<lambda>vs n. if d = Forward then vs @ [n] else filter (\<lambda>x. x \<noteq> n) vs) (schema_version s)
       (map (\<lambda>n. Name (the (lookup m n))) (upto_target t names)) \<and>
   executed s' = executed s @
     (if fake then []
      else filter (\<lambda>q. q \<noteq> [])
       (map (\<lambda>n. if d = Forward then UpSQL (the (lookup m n)) else DownSQL (the (lookup m n)))
          (upto_target t names))) \<and>
   open_tx s' = (if DisableTx m \<or> names = [] then open_tx s else None) \<and>
   version_calls (trace s') = version_calls (trace s) @
     map (\<lambda>n. if d = Forward then InsertVersion (Name (the (lookup m n)))
               else DeleteVersion (Name (the (lookup m n)))) (upto_target t names)"
proof (induction names arbitrary: s s')
  case Nil
  then show ?case by (simp add: upto_target_Nil)
next
  case (Cons n rest)
  from Cons.prems obtain c where c: "lookup m n = Some c"
    by (cases "lookup m n") auto
  obtain be tx s1 where b: "beginTx F m s = (be, tx, s1)"
    by (cases "beginTx F m s") auto
  from Cons.prems c b have be: "be = None" by (cases be) auto
  obtain re s2 where r: "runMigrationFake fake F m d c tx s1 = (re, s2)"
    by (cases "runMigrationFake fake F m d c tx s1") auto
  from Cons.prems c b be r have re: "re = None" by (cases re) auto
  note B = beginTx_ok[OF b[unfolded be]]
  note R = runMigrationFake_ok[OF r[unfolded re]]
  have closed: "tx = None \<or> open_tx s2 = None" using R(3) by auto
  show ?case
  proof (cases "t = n")
    case True
    with Cons.prems c b be r re have s': "s' = deferredRollback F tx s2" by simp
    show ?thesis
      unfolding s' using True c B R closed
      by (simp add: upto_target_Cons deferredRollback_closed deferredRollback_version_calls)
  next
    case False
    obtain r3 s3 where rec: "runMigrationsFake fake F m d t rest s2 = (r3, s3)"
      by (cases "runMigrationsFake fake F m d t rest s2") auto
    with Cons.prems c b be r re False
    have r3: "r3 = Returned None" and s': "s' = deferredRollback F tx s3"
      by auto
    note IH = Cons.IH[OF rec[unfolded r3]]
    have closed3: "tx = None \<or> open_tx s3 = None" using IH R(3) by auto
    show ?thesis
      unfolding s' using False c B R IH closed3
      by (auto simp add: upto_target_Cons deferredRollback_closed deferredRollback_version_calls)
  qed
qed

text \<open>In fake mode no call that carries the SQL of a migration is made.\<close>

lemma conn_call_no_sql:
  assumes "conn_call F st s = (r, s')" and "\<forall>q. st \<noteq> ExecSQL q"
  shows "sql_calls (trace s') = sql_calls (trace s)"
  using conn_call_trace[OF assms(1)] assms(2) by (cases st) (simp_all add: sql_calls_append)

lemma runMigrationFake_no_sql:
  "sql_calls (trace (snd (runMigrationFake True F m d c tx s))) = sql_calls (trace s)"
proof -
  let ?sql = "if d = Forward then UpSQL c else DownSQL c"
  let ?s1 = "if OnStart m
                then s\<lparr>trace := trace s @ [OnStartCall (Sequence c) (Name c) [] ?sql]\<rparr>
                else s"
  obtain resetErr s3 where rs: "conn_call F ResetAll ?s1 = (resetErr, s3)"
    by (cases "conn_call F ResetAll ?s1")
  obtain err s4 where mk: "(if d = Forward then markMigrationApplied F (Name c) s3
                               else markMigrationUnapplied F (Name c) s3) = (err, s4)"
    by (cases "if d = Forward then markMigrationApplied F (Name c) s3
                               else markMigrationUnapplied F (Name c) s3")
  obtain ce s5 where cm: "conn_call F (CommitTx (the tx)) s4 = (ce, s5)"
    by (cases "conn_call F (CommitTx (the tx)) s4")
  have t1: "sql_calls (trace ?s1) = sql_calls (trace s)" by (simp add: sql_calls_append)
  have t3: "sql_calls (trace s3) = sql_calls (trace ?s1)"
    using conn_call_no_sql[OF rs] by simp
  have t4: "sql_calls (trace s4) = sql_calls (trace s3)"
    using mk
    by (auto simp: markMigrationApplied_def markMigrationUnapplied_def split: if_splits
        dest: conn_call_no_sql)
  have t5: "sql_calls (trace s5) = sql_calls (trace s4)"
    using conn_call_no_sql[OF cm] by simp
  have "snd (runMigrationFake True F m d c tx s) = s4 \<or> snd (runMigrationFake True F m d c tx s) = s5"
  proof (cases tx)
    case None
    then show ?thesis
      unfolding runMigrationFake_def Let_def by (auto simp: rs mk split: if_splits)
  next
    case (Some i)
    then have "conn_call F (CommitTx i) s4 = (ce, s5)" using cm by simp
    then show ?thesis
      unfolding runMigrationFake_def Let_def by (auto simp: rs mk Some split: if_splits)
  qed
  then show ?thesis using t1 t3 t4 t5 by auto
qed

lemma deferredRollback_no_sql:
  "sql_calls (trace (deferredRollback F tx s)) = sql_calls (trace s)"
  by (cases tx; cases "conn_call F (RollbackTx (the tx)) s")
     (auto simp: deferredRollback_def sql_calls_append dest!: conn_call_trace)

lemma beginTx_no_sql:
  "sql_calls (trace (snd (snd (beginTx F m s)))) = sql_calls (trace s)"
  by (cases "conn_call F BeginTx s")
     (auto simp: beginTx_def Let_def dest: conn_call_no_sql)

lemma runMigrationsFake_no_sql:
  "sql_calls (trace (snd (runMigrationsFake True F m d t names s))) = sql_calls (trace s)"
proof (induction names arbitrary: s)
  case Nil
  then show ?case by simp
next
  case (Cons n rest)
  show ?case
  proof (cases "lookup m n")
    case None
    then show ?thesis by simp
  next
    case (Some c)
    obtain be tx s1 where b: "beginTx F m s = (be, tx, s1)"
      by (cases "beginTx F m s") auto
    have b1: "sql_calls (trace s1) = sql_calls (trace s)"
      using beginTx_no_sql[of F m s] b by simp
    obtain re s2 where r: "runMigrationFake True F m d c tx s1 = (re, s2)"
      by (cases "runMigrationFake True F m d c tx s1") auto
    have r1: "sql_calls (trace s2) = sql_calls (trace s1)"
      using runMigrationFake_no_sql[of F m d c tx s1] r by simp
    obtain r3 s3 where rec: "runMigrationsFake True F m d t rest s2 = (r3, s3)"
      by (cases "runMigrationsFake True F m d t rest s2") auto
    have r3: "sql_calls (trace s3) = sql_calls (trace s2)"
      using Cons.IH[of s2] rec by simp
    show ?thesis
      using b1 r1 r3
      by (cases be; cases re) (simp_all add: Some b r rec deferredRollback_no_sql)
  qed
qed

lemma migrateBodyFake_no_sql:
  "sql_calls (trace (snd (migrateBodyFake True F m t s))) = sql_calls (trace s)"
proof -
  obtain d e s1 where g: "GetDirection F m t s = ((d, e), s1)"
    by (cases "GetDirection F m t s") auto
  note G = GetDirection_state(5)[OF g]
  obtain names e2 s2 where mt: "MigrationsToApply F m s1 = ((names, e2), s2)"
    by (cases "MigrationsToApply F m s1") auto
  note M = MigrationsToApply_state(5)[OF mt]
  obtain cur err s3 where c: "GetCurrentVersion F s1 = ((cur, err), s3)"
    by (cases "GetCurrentVersion F s1") auto
  note C = GetCurrentVersion_state(5)[OF c]
  show ?thesis
    using G M C runMigrationsFake_no_sql[of F m d t _ s2] runMigrationsFake_no_sql[of F m d t _ s3]
    by (cases d) (simp_all add: migrateBodyFake_def g mt c Let_def)
qed

lemma MigrateToFake_no_sql:
  "sql_calls (trace (snd (MigrateToFake True F m t s))) = sql_calls (trace s)"
proof -
  obtain le s1 where a: "conn_call F AdvisoryLock s = (le, s1)"
    by (cases "conn_call F AdvisoryLock s")
  obtain res s2 where b: "migrateBodyFake True F m t s1 = (res, s2)"
    by (cases "migrateBodyFake True F m t s1")
  obtain u s3 where r: "conn_call F AdvisoryUnlock s2 = (u, s3)"
    by (cases "conn_call F AdvisoryUnlock s2")
  have "sql_calls (trace s2) = sql_calls (trace s1)"
    using migrateBodyFake_no_sql[of F m t s1] b by simp
  then have *: "sql_calls (trace s1) = sql_calls (trace s)" "sql_calls (trace s3) = sql_calls (trace s)"
    using lock_state(5)[OF a] lock_state(5)[OF r] by simp_all
  show ?thesis
    using *
    by (cases le; cases res)
       (auto simp: MigrateToFake_def acquireAdvisoryLock_def releaseAdvisoryLock_def a b r)
qed

lemma MigrateToFake_ok:
  assumes "fst (MigrateToFake fake F m t s) = Returned None"
  shows "fst (acquireAdvisoryLock F s) = None"
    and "fst (migrateBodyFake fake F m t (snd (acquireAdvisoryLock F s))) = Returned None"
    and "releaseAdvisoryLock F (snd (migrateBodyFake fake F m t (snd (acquireAdvisoryLock F s))))
           = (None, snd (MigrateToFake fake F m t s))"
proof -
  obtain lockErr s1 where a: "acquireAdvisoryLock F s = (lockErr, s1)"
    by (cases "acquireAdvisoryLock F s")
  obtain res s2 where b: "migrateBodyFake fake F m t s1 = (res, s2)"
    by (cases "migrateBodyFake fake F m t s1")
  obtain unlockErr s3 where u: "releaseAdvisoryLock F s2 = (unlockErr, s3)"
    by (cases "releaseAdvisoryLock F s2")
  from assms show l: "fst (acquireAdvisoryLock F s) = None"
    by (cases lockErr) (simp_all add: MigrateToFake_def a)
  then have le: "lockErr = None" using a by simp
  from assms have r: "res = Returned None"
    unfolding MigrateToFake_def a le by (cases res) (auto simp: b u split: if_splits)
  then show "fst (migrateBodyFake fake F m t (snd (acquireAdvisoryLock F s))) = Returned None"
    using a b by simp
  from assms have "unlockErr = None"
    unfolding MigrateToFake_def a le by (simp add: b u r split: if_splits)
  then show "releaseAdvisoryLock F (snd (migrateBodyFake fake F m t (snd (acquireAdvisoryLock F s))))
           = (None, snd (MigrateToFake fake F m t s))"
    by (simp add: MigrateToFake_def a le b u r)
qed

lemma migrateBodyFake_Back:
  assumes d: "fst (GetDirection F m t s) = (Back, None)"
    and ok: "fst (migrateBodyFake fake F m t s) = Returned None"
  shows "t \<in> set (schema_version s)"
    and "\<exists>s2. schema_version s2 = schema_version s \<and> executed s2 = executed s \<and>
           version_calls (trace s2) = version_calls (trace s) \<and>
           runMigrationsFake fake F m Back t
             (take (nat (Position (rev (schema_version s)) t)) (rev (schema_version s))) s2
             = (Returned None, snd (migrateBodyFake fake F m t s))"
proof -
  obtain s1 where g: "GetDirection F m t s = ((Back, None), s1)"
    using d by (cases "GetDirection F m t s") auto
  obtain cur1 err1 s0 where c1: "GetCurrentVersion F s = ((cur1, err1), s0)"
    by (cases "GetCurrentVersion F s") auto
  from d have "err1 = None \<and> t \<in> set cur1"
    by (cases err1) (auto simp: GetDirection_result c1 split: if_splits)
  then show t: "t \<in> set (schema_version s)"
    using GetCurrentVersion_rows(1)[OF c1] by auto
  obtain cur err s2 where c: "GetCurrentVersion F s1 = ((cur, err), s2)"
    by (cases "GetCurrentVersion F s1") auto
  from ok have err: "err = None"
    by (cases err) (auto simp: migrateBodyFake_def g c)
  from ok have p: "0 \<le> Position (Reverse cur) t"
    by (auto simp: migrateBodyFake_def g c err Let_def split: if_splits)
  then have "t \<in> set cur" by (simp add: Position_nonneg Reverse_rev)
  then have cur: "cur = schema_version s"
    using GetCurrentVersion_rows(1)[OF c] GetDirection_state(1)[OF g] by auto
  from ok p have run: "runMigrationsFake fake F m Back t
      (take (nat (Position (rev (schema_version s)) t)) (rev (schema_version s))) s2
      = (Returned None, snd (migrateBodyFake fake F m t s))"
    by (auto simp: migrateBodyFake_def g c err cur Let_def Reverse_rev intro: prod_eqI)
  show "\<exists>s2. schema_version s2 = schema_version s \<and> executed s2 = executed s \<and>
           version_calls (trace s2) = version_calls (trace s) \<and>
           runMigrationsFake fake F m Back t
             (take (nat (Position (rev (schema_version s)) t)) (rev (schema_version s))) s2
             = (Returned None, snd (migrateBodyFake fake F m t s))"
    using run GetCurrentVersion_state[OF c] GetDirection_state[OF g] by (intro exI[of _ s2]) simp
qed

lemma migrateBodyFake_Forward:
  assumes d: "fst (GetDirection F m t s) = (Forward, None)"
    and ok: "fst (migrateBodyFake fake F m t s) = Returned None"
    and honest: "\<forall>s'. F s' SelectVersions \<noteq> Some ErrNoMigrations"
  shows "t \<notin> set (schema_version s)" and "lookup m t \<noteq> None"
    and "\<exists>s2. schema_version s2 = schema_version s \<and> executed s2 = executed s \<and>
           version_calls (trace s2) = version_calls (trace s) \<and>
           runMigrationsFake fake F m Forward t
             (sort (map Name (filter (\<lambda>c. Name c \<notin> set (schema_version s))
                (map snd (Migrations m))))) s2
             = (Returned None, snd (migrateBodyFake fake F m t s))"
proof -
  obtain s1 where g: "GetDirection F m t s = ((Forward, None), s1)"
    using d by (cases "GetDirection F m t s") auto
  obtain cur1 err1 s0 where c1: "GetCurrentVersion F s = ((cur1, err1), s0)"
    by (cases "GetCurrentVersion F s") auto
  from d have r: "err1 = None \<and> t \<notin> set cur1 \<and> lookup m t \<noteq> None"
    by (cases err1) (auto simp: GetDirection_result c1 split: if_splits)
  then have "cur1 = schema_version s"
    using GetCurrentVersion_rows(3)[OF c1] honest by blast
  with r show "t \<notin> set (schema_version s)" and "lookup m t \<noteq> None" by simp_all
  obtain cur err s2 where c: "GetCurrentVersion F s1 = ((cur, err), s2)"
    by (cases "GetCurrentVersion F s1") auto
  have ne: "err \<noteq> Some ErrNoMigrations" using GetCurrentVersion_rows(2)[OF c] .
  from ok ne have err: "err = None"
    by (cases err) (auto simp: migrateBodyFake_def g MigrationsToApply_def c)
  have cur: "cur = schema_version s"
    using GetCurrentVersion_rows(3)[OF c] honest err GetDirection_state(1)[OF g] by simp
  from ok have run: "runMigrationsFake fake F m Forward t
             (sort (map Name (filter (\<lambda>c. Name c \<notin> set (schema_version s))
                (map snd (Migrations m))))) s2
             = (Returned None, snd (migrateBodyFake fake F m t s))"
    by (auto simp: migrateBodyFake_def g MigrationsToApply_def c err cur intro: prod_eqI)
  show "\<exists>s2. schema_version s2 = schema_version s \<and> executed s2 = executed s \<and>
           version_calls (trace s2) = version_calls (trace s) \<and>
           runMigrationsFake fake F m Forward t
             (sort (map Name (filter (\<lambda>c. Name c \<notin> set (schema_version s))
                (map snd (Migrations m))))) s2
             = (Returned None, snd (migrateBodyFake fake F m t s))"
    using run GetCurrentVersion_state[OF c] GetDirection_state[OF g] by (intro exI[of _ s2]) simp
qed


text \<open>With the toggle off the modelled executor is the executor of the source.\<close>

lemma runMigrationFake_off: "runMigrationFake False F m d c tx s = runMigration F m d c tx s"
  by (simp add: runMigrationFake_def runMigration_def)

lemma runMigrationsFake_off:
  "runMigrationsFake False F m d t names s = runMigrations F m d t names s"
  by (induction names arbitrary: s)
     (simp_all add: runMigrationFake_off split: option.splits prod.splits)

lemma migrateBodyFake_off: "migrateBodyFake False F m t s = migrateBody F m t s"
  unfolding migrateBodyFake_def migrateBody_def runMigrationsFake_off by (rule refl)

lemma MigrateToFake_off: "MigrateToFake False F m t s = MigrateTo F m t s"
  unfolding MigrateToFake_def MigrateTo_def migrateBodyFake_off by (rule refl)

lemma MigrateToFake_Forward:
  assumes lock: "fst (acquireAdvisoryLock F s) = None"
    and dir: "fst (GetDirection F m t (snd (acquireAdvisoryLock F s))) = (Forward, None)"
    and ok: "fst (MigrateToFake fake F m t s) = Returned None"
    and wf: "wf_migrations m"
    and honest: "\<forall>s'. F s' SelectVersions \<noteq> Some ErrNoMigrations"
  shows "\<exists>traversal.
      traversal = takeWhile (\<lambda>n. n \<noteq> t)
        (sorted_list_of_set (fst ` set (Migrations m) - set (schema_version s))) @ [t] \<and>
      version_calls (trace (snd (MigrateToFake fake F m t s))) =
        version_calls (trace s) @ map InsertVersion traversal \<and>
      executed (snd (MigrateToFake fake F m t s)) =
        executed s @
          (if fake then []
           else filter (\<lambda>q. q \<noteq> []) (map (\<lambda>n. UpSQL (the (lookup m n))) traversal)) \<and>
      schema_version (snd (MigrateToFake fake F m t s)) = schema_version s @ traversal"
proof -
  let ?s' = "snd (MigrateToFake fake F m t s)"
  define pending where "pending = sorted_list_of_set (fst ` set (Migrations m) - set (schema_version s))"
  define trav where "trav = takeWhile (\<lambda>n. n \<noteq> t) pending @ [t]"
  obtain s1 where a: "conn_call F AdvisoryLock s = (None, s1)"
    using lock by (cases "conn_call F AdvisoryLock s") (auto simp: acquireAdvisoryLock_def)
  have s1: "snd (acquireAdvisoryLock F s) = s1" using a by (simp add: acquireAdvisoryLock_def)
  note A = lock_state[OF a]
  have bok: "fst (migrateBodyFake fake F m t s1) = Returned None"
    using MigrateToFake_ok(2)[OF ok] s1 by simp
  have rel: "conn_call F AdvisoryUnlock (snd (migrateBodyFake fake F m t s1)) = (None, ?s')"
    using MigrateToFake_ok(3)[OF ok] s1 by (simp add: releaseAdvisoryLock_def)
  note R = lock_state[OF rel]
  note B = migrateBodyFake_Forward[OF dir[unfolded s1] bok honest]
  have tn: "t \<notin> set (schema_version s)" using B(1) A by simp
  have tk: "t \<in> fst ` set (Migrations m)" using B(2) wf_lookup(2)[OF wf] by simp
  have fin: "finite (fst ` set (Migrations m) - set (schema_version s))" by simp
  have tp: "t \<in> set pending" unfolding pending_def using tn tk fin by simp
  obtain s2 where s2: "schema_version s2 = schema_version s1" "executed s2 = executed s1"
      "version_calls (trace s2) = version_calls (trace s1)"
    and run: "runMigrationsFake fake F m Forward t
             (sort (map Name (filter (\<lambda>c. Name c \<notin> set (schema_version s1))
                (map snd (Migrations m))))) s2
             = (Returned None, snd (migrateBodyFake fake F m t s1))"
    using B(3) by blast
  have "sort (map Name (filter (\<lambda>c. Name c \<notin> set (schema_version s1)) (map snd (Migrations m))))
        = pending"
    unfolding pending_def using pending_sorted[OF wf] A by simp
  with run have run': "runMigrationsFake fake F m Forward t pending s2
             = (Returned None, snd (migrateBodyFake fake F m t s1))" by simp
  have up: "upto_target t pending = trav"
    unfolding trav_def using tp by (rule upto_target_present)
  note L = runMigrationsFake_ok[OF run', unfolded up]
  have names: "map (\<lambda>n. Name (the (lookup m n))) trav = trav"
    using wf_names[OF wf] L by blast
  have sv: "schema_version ?s' = schema_version s @ trav"
    using L names R s2 A by (simp add: foldl_insert)
  have vc: "version_calls (trace ?s') = version_calls (trace s) @ map InsertVersion trav"
  proof -
    have "map (\<lambda>n. InsertVersion (Name (the (lookup m n)))) trav
          = map InsertVersion (map (\<lambda>n. Name (the (lookup m n))) trav)"
      by (simp add: comp_def)
    then show ?thesis using L R s2 A names by simp
  qed
  have ex: "executed ?s' = executed s @
          (if fake then []
           else filter (\<lambda>q. q \<noteq> []) (map (\<lambda>n. UpSQL (the (lookup m n))) trav))"
    using L R s2 A by simp
  show ?thesis
  proof (rule exI[of _ trav], intro conjI)
    show "trav = takeWhile (\<lambda>n. n \<noteq> t)
        (sorted_list_of_set (fst ` set (Migrations m) - set (schema_version s))) @ [t]"
      by (simp only: trav_def pending_def)
  qed (use vc ex sv in simp_all)
qed

lemma MigrateToFake_Back:
  assumes lock: "fst (acquireAdvisoryLock F s) = None"
    and dir: "fst (GetDirection F m t (snd (acquireAdvisoryLock F s))) = (Back, None)"
    and ok: "fst (MigrateToFake fake F m t s) = Returned None"
    and wf: "wf_migrations m"
  shows "\<exists>traversal.
      traversal = take (nat (Position (rev (schema_version s)) t)) (rev (schema_version s)) \<and>
      version_calls (trace (snd (MigrateToFake fake F m t s))) =
        version_calls (trace s) @ map DeleteVersion traversal \<and>
      executed (snd (MigrateToFake fake F m t s)) =
        executed s @
          (if fake then []
           else filter (\<lambda>q. q \<noteq> []) (map (\<lambda>n. DownSQL (the (lookup m n))) traversal)) \<and>
      schema_version (snd (MigrateToFake fake F m t s)) =
        filter (\<lambda>x. x \<notin> set traversal) (schema_version s)"
proof -
  let ?applied = "schema_version s"
  let ?trav = "take (nat (Position (rev ?applied) t)) (rev ?applied)"
  let ?s' = "snd (MigrateToFake fake F m t s)"
  obtain s1 where a: "conn_call F AdvisoryLock s = (None, s1)"
    using lock by (cases "conn_call F AdvisoryLock s") (auto simp: acquireAdvisoryLock_def)
  have s1: "snd (acquireAdvisoryLock F s) = s1" using a by (simp add: acquireAdvisoryLock_def)
  note A = lock_state[OF a]
  have bok: "fst (migrateBodyFake fake F m t s1) = Returned None"
    using MigrateToFake_ok(2)[OF ok] s1 by simp
  have rel: "conn_call F AdvisoryUnlock (snd (migrateBodyFake fake F m t s1)) = (None, ?s')"
    using MigrateToFake_ok(3)[OF ok] s1 by (simp add: releaseAdvisoryLock_def)
  note R = lock_state[OF rel]
  have t1: "t \<in> set (schema_version s1)"
    using migrateBodyFake_Back(1)[OF dir[unfolded s1] bok] .
  then have t: "t \<in> set ?applied" using A by simp
  obtain s2 where s2: "schema_version s2 = schema_version s1" "executed s2 = executed s1"
      "version_calls (trace s2) = version_calls (trace s1)"
    and run: "runMigrationsFake fake F m Back t
             (take (nat (Position (rev (schema_version s1)) t)) (rev (schema_version s1))) s2
             = (Returned None, snd (migrateBodyFake fake F m t s1))"
    using migrateBodyFake_Back(2)[OF dir[unfolded s1] bok] by blast
  have run': "runMigrationsFake fake F m Back t ?trav s2
      = (Returned None, snd (migrateBodyFake fake F m t s1))"
    using run A by simp
  have trav: "?trav = takeWhile (\<lambda>y. y \<noteq> t) (rev ?applied)"
    using t by (simp add: take_Position)
  have notin: "t \<notin> set ?trav"
    unfolding trav by (auto dest: set_takeWhileD)
  have up: "upto_target t ?trav = ?trav" using notin by (rule upto_target_absent)
  note L = runMigrationsFake_ok[OF run', unfolded up]
  have names: "map (\<lambda>n. Name (the (lookup m n))) ?trav = ?trav"
    using wf_names[OF wf] L by blast
  have sv: "schema_version ?s' = filter (\<lambda>x. x \<notin> set ?trav) ?applied"
    using L names R s2 A by (simp add: foldl_delete)
  have vc: "version_calls (trace ?s') = version_calls (trace s) @ map DeleteVersion ?trav"
  proof -
    have "map (\<lambda>n. DeleteVersion (Name (the (lookup m n)))) ?trav
          = map DeleteVersion (map (\<lambda>n. Name (the (lookup m n))) ?trav)"
      by (simp add: comp_def)
    then show ?thesis using L R s2 A names by simp
  qed
  have ex: "executed ?s' = executed s @
          (if fake then []
           else filter (\<lambda>q. q \<noteq> []) (map (\<lambda>n. DownSQL (the (lookup m n))) ?trav))"
    using L R s2 A by simp
  show ?thesis
    by (rule exI[of _ ?trav], intro conjI) (use vc ex sv in simp_all)
qed

text \<open>
  C4. Fake mode, as the spec describes it. A call of the executor in fake mode never
  sends the SQL body of a migration to the database, whatever the outcome. When the call
  returns nil, the database objects are as before and the version table has been
  written as by a real run: in a Forward run the rows of the pending names up to the
  target are inserted in order, in a Back run the rows of the names applied after the
  target are deleted, most recent first.
\<close>

theorem MigrateToFake_records_without_sql:
  "sql_calls (trace (snd (MigrateToFake True F m t s))) = sql_calls (trace s) \<and>
   (fst (acquireAdvisoryLock F s) = None \<and>
    fst (MigrateToFake True F m t s) = Returned None \<and>
    wf_migrations m \<and>
    (\<forall>s'. F s' SelectVersions \<noteq> Some ErrNoMigrations) \<longrightarrow>
      executed (snd (MigrateToFake True F m t s)) = executed s \<and>
      (fst (GetDirection F m t (snd (acquireAdvisoryLock F s))) = (Forward, None) \<longrightarrow>
         (\<exists>traversal.
            traversal = takeWhile (\<lambda>n. n \<noteq> t)
              (sorted_list_of_set (fst ` set (Migrations m) - set (schema_version s))) @ [t] \<and>
            version_calls (trace (snd (MigrateToFake True F m t s))) =
              version_calls (trace s) @ map InsertVersion traversal \<and>
            schema_version (snd (MigrateToFake True F m t s)) = schema_version s @ traversal)) \<and>
      (fst (GetDirection F m t (snd (acquireAdvisoryLock F s))) = (Back, None) \<longrightarrow>
         (\<exists>traversal.
            traversal = take (nat (Position (rev (schema_version s)) t)) (rev (schema_version s)) \<and>
            version_calls (trace (snd (MigrateToFake True F m t s))) =
              version_calls (trace s) @ map DeleteVersion traversal \<and>
            schema_version (snd (MigrateToFake True F m t s)) =
              filter (\<lambda>x. x \<notin> set traversal) (schema_version s))) \<and>
      (fst (GetDirection F m t (snd (acquireAdvisoryLock F s))) = (Forward, None) \<or>
       fst (GetDirection F m t (snd (acquireAdvisoryLock F s))) = (Back, None)))"
proof (intro conjI impI)
  show "sql_calls (trace (snd (MigrateToFake True F m t s))) = sql_calls (trace s)"
    by (rule MigrateToFake_no_sql)
next
  assume h: "fst (acquireAdvisoryLock F s) = None \<and>
    fst (MigrateToFake True F m t s) = Returned None \<and>
    wf_migrations m \<and>
    (\<forall>s'. F s' SelectVersions \<noteq> Some ErrNoMigrations)"
  then have lock: "fst (acquireAdvisoryLock F s) = None"
    and ok: "fst (MigrateToFake True F m t s) = Returned None"
    and wf: "wf_migrations m"
    and honest: "\<forall>s'. F s' SelectVersions \<noteq> Some ErrNoMigrations" by simp_all
  let ?s1 = "snd (acquireAdvisoryLock F s)"
  have bok: "fst (migrateBodyFake True F m t ?s1) = Returned None"
    using MigrateToFake_ok(2)[OF ok] .
  obtain d e s2 where g: "GetDirection F m t ?s1 = ((d, e), s2)"
    by (cases "GetDirection F m t ?s1") auto
  have e: "e = None" using bok by (cases e) (auto simp: migrateBodyFake_def g)
  have d: "d = Forward \<or> d = Back"
    using bok by (cases d) (auto simp: migrateBodyFake_def g e)
  show dir: "fst (GetDirection F m t ?s1) = (Forward, None) \<or>
       fst (GetDirection F m t ?s1) = (Back, None)"
    using d e g by auto
  {
    assume f: "fst (GetDirection F m t ?s1) = (Forward, None)"
    from MigrateToFake_Forward[OF lock f ok wf honest]
    show "\<exists>traversal.
            traversal = takeWhile (\<lambda>n. n \<noteq> t)
              (sorted_list_of_set (fst ` set (Migrations m) - set (schema_version s))) @ [t] \<and>
            version_calls (trace (snd (MigrateToFake True F m t s))) =
              version_calls (trace s) @ map InsertVersion traversal \<and>
            schema_version (snd (MigrateToFake True F m t s)) = schema_version s @ traversal"
      by auto
  }
  {
    assume b: "fst (GetDirection F m t ?s1) = (Back, None)"
    from MigrateToFake_Back[OF lock b ok wf]
    show "\<exists>traversal.
            traversal = take (nat (Position (rev (schema_version s)) t)) (rev (schema_version s)) \<and>
            version_calls (trace (snd (MigrateToFake True F m t s))) =
              version_calls (trace s) @ map DeleteVersion traversal \<and>
            schema_version (snd (MigrateToFake True F m t s)) =
              filter (\<lambda>x. x \<notin> set traversal) (schema_version s)"
      by auto
  }
  show "executed (snd (MigrateToFake True F m t s)) = executed s"
    using dir MigrateToFake_Forward[OF lock _ ok wf honest] MigrateToFake_Back[OF lock _ ok wf]
    by auto
qed

theorem MigrateToFake_records_without_sql_witness:
  "fst (acquireAdvisoryLock no_faults emptyDB) = None \<and>
   fst (MigrateToFake True no_faults threeMigrations ''migration_1'' emptyDB) = Returned None \<and>
   wf_migrations threeMigrations \<and>
   fst (GetDirection no_faults threeMigrations ''migration_1''
          (snd (acquireAdvisoryLock no_faults emptyDB))) = (Forward, None) \<and>
   executed (snd (MigrateToFake True no_faults threeMigrations ''migration_1'' emptyDB)) = [] \<and>
   schema_version (snd (MigrateToFake True no_faults threeMigrations ''migration_1'' emptyDB)) =
     [''migration_1'']"
proof -
  have h1: "fst (acquireAdvisoryLock no_faults emptyDB) = None" by code_simp
  have h2: "fst (MigrateToFake True no_faults threeMigrations ''migration_1'' emptyDB) = Returned None"
    by code_simp
  have h3: "wf_migrations threeMigrations" by code_simp
  have h4: "\<forall>s'. no_faults s' SelectVersions \<noteq> Some ErrNoMigrations"
    by (simp add: no_faults_def)
  have h5: "fst (GetDirection no_faults threeMigrations ''migration_1''
          (snd (acquireAdvisoryLock no_faults emptyDB))) = (Forward, None)" by code_simp
  have p: "takeWhile (\<lambda>n. n \<noteq> ''migration_1'')
              (sorted_list_of_set (fst ` set (Migrations threeMigrations) - set (schema_version emptyDB)))
             @ [''migration_1''] = [''migration_1'']" by code_simp
  have e: "executed emptyDB = []" "schema_version emptyDB = []" by (simp_all add: emptyDB_def)
  from MigrateToFake_records_without_sql[of no_faults threeMigrations "''migration_1''" emptyDB]
    h1 h2 h3 h4 h5
  obtain traversal where
    ex: "executed (snd (MigrateToFake True no_faults threeMigrations ''migration_1'' emptyDB))
           = executed emptyDB"
    and tr: "traversal = takeWhile (\<lambda>n. n \<noteq> ''migration_1'')
              (sorted_list_of_set (fst ` set (Migrations threeMigrations) - set (schema_version emptyDB)))
             @ [''migration_1'']"
    and sv: "schema_version (snd (MigrateToFake True no_faults threeMigrations ''migration_1'' emptyDB))
           = schema_version emptyDB @ traversal"
    by blast
  have "traversal = [''migration_1'']" using tr p by (simp only:)
  with ex sv e
  have "executed (snd (MigrateToFake True no_faults threeMigrations ''migration_1'' emptyDB)) = [] \<and>
   schema_version (snd (MigrateToFake True no_faults threeMigrations ''migration_1'' emptyDB)) =
     [''migration_1'']"
    by simp
  with h1 h2 h3 h5 show ?thesis by (intro conjI) simp_all
qed

subsection \<open>The functions of package strings\<close>

lemma whiteSpace_encodes: "whiteSpace = map EncodeRune White_Space"
  by (simp add: whiteSpace_def White_Space_def EncodeRune_def char_of_def bit_Suc_0_iff)

lemma whiteSpace_nonempty: "e \<in> set whiteSpace \<Longrightarrow> e \<noteq> []"
  by (auto simp: whiteSpace_def)

lemma spaceAt_Nil: "spaceAtStart [] = 0 \<and> spaceAtEnd [] = 0"
  by (simp add: spaceAtStart_def spaceAtEnd_def HasPrefix_def HasSuffix_def whiteSpace_def)

lemma spaceAtStart_0: "(spaceAtStart s = 0) = (\<forall>e \<in> set whiteSpace. \<not> HasPrefix s e)"
proof (cases "filter (HasPrefix s) whiteSpace")
  case Nil
  then show ?thesis by (simp add: spaceAtStart_def filter_empty_conv)
next
  case (Cons e es)
  then have "e \<in> set (filter (HasPrefix s) whiteSpace)" by simp
  then have "e \<in> set whiteSpace" "HasPrefix s e" by simp_all
  then show ?thesis using Cons whiteSpace_nonempty[of e] by (auto simp: spaceAtStart_def)
qed

lemma spaceAtEnd_0: "(spaceAtEnd s = 0) = (\<forall>e \<in> set whiteSpace. \<not> HasSuffix s e)"
proof (cases "filter (HasSuffix s) whiteSpace")
  case Nil
  then show ?thesis by (simp add: spaceAtEnd_def filter_empty_conv)
next
  case (Cons e es)
  then have "e \<in> set (filter (HasSuffix s) whiteSpace)" by simp
  then have "e \<in> set whiteSpace" "HasSuffix s e" by simp_all
  then show ?thesis using Cons whiteSpace_nonempty[of e] by (auto simp: spaceAtEnd_def)
qed

lemma spaceAtStart_prefix:
  "spaceAtStart s \<noteq> 0 \<Longrightarrow> \<exists>e \<in> set whiteSpace. length e = spaceAtStart s \<and> s = e @ drop (spaceAtStart s) s"
proof -
  assume a: "spaceAtStart s \<noteq> 0"
  then obtain e es where f: "filter (HasPrefix s) whiteSpace = e # es"
    by (cases "filter (HasPrefix s) whiteSpace") (auto simp: spaceAtStart_def)
  then have "e \<in> set (filter (HasPrefix s) whiteSpace)" by simp
  then have e: "e \<in> set whiteSpace" "HasPrefix s e" by simp_all
  have w: "spaceAtStart s = length e" using f by (simp add: spaceAtStart_def)
  from e(2) have "take (length e) s = e" by (simp add: HasPrefix_def)
  then have "e @ drop (length e) s = s" by (metis append_take_drop_id)
  then show ?thesis using e(1) w by auto
qed

lemma spaceAtEnd_suffix:
  "spaceAtEnd s \<noteq> 0 \<Longrightarrow> \<exists>e \<in> set whiteSpace. length e = spaceAtEnd s \<and> s = take (length s - spaceAtEnd s) s @ e"
proof -
  assume a: "spaceAtEnd s \<noteq> 0"
  then obtain e es where f: "filter (HasSuffix s) whiteSpace = e # es"
    by (cases "filter (HasSuffix s) whiteSpace") (auto simp: spaceAtEnd_def)
  then have "e \<in> set (filter (HasSuffix s) whiteSpace)" by simp
  then have e: "e \<in> set whiteSpace" "HasSuffix s e" by simp_all
  have w: "spaceAtEnd s = length e" using f by (simp add: spaceAtEnd_def)
  from e(2) have "drop (length s - length e) s = e" by (simp add: HasSuffix_def)
  then have "take (length s - length e) s @ e = s" by (metis append_take_drop_id)
  then show ?thesis using e(1) w by auto
qed

lemma TrimLeftSpace_spec:
  "spaceAtStart (TrimLeftSpace s) = 0 \<and>
   (\<exists>as. set as \<subseteq> set whiteSpace \<and> s = concat as @ TrimLeftSpace s)"
proof (induction s rule: TrimLeftSpace.induct)
  case (1 s)
  show ?case
  proof (cases "spaceAtStart s = 0 \<or> s = []")
    case True
    have e: "spaceAtStart [] = 0" by (simp add: spaceAtStart_0 HasPrefix_def whiteSpace_nonempty)
    have t: "TrimLeftSpace s = s" using True by (subst TrimLeftSpace.simps) simp
    have "s = concat [] @ s" by simp
    then show ?thesis using True e t by (metis empty_set empty_subsetI)
  next
    case False
    then have t: "TrimLeftSpace s = TrimLeftSpace (drop (spaceAtStart s) s)"
      by (subst TrimLeftSpace.simps) simp
    from "1.IH"[OF False] obtain as where
      z: "spaceAtStart (TrimLeftSpace (drop (spaceAtStart s) s)) = 0"
      and as: "set as \<subseteq> set whiteSpace"
        "drop (spaceAtStart s) s = concat as @ TrimLeftSpace (drop (spaceAtStart s) s)"
      by blast
    from False obtain e where e: "e \<in> set whiteSpace" "s = e @ drop (spaceAtStart s) s"
      using spaceAtStart_prefix[of s] by blast
    have "s = concat (e # as) @ TrimLeftSpace s"
      unfolding t using e(2) as(2) by (metis append.assoc concat.simps(2))
    moreover have "set (e # as) \<subseteq> set whiteSpace" using e(1) as(1) by simp
    ultimately show ?thesis using z t by metis
  qed
qed

lemma TrimRightSpace_spec:
  "spaceAtEnd (TrimRightSpace s) = 0 \<and>
   (\<exists>bs. set bs \<subseteq> set whiteSpace \<and> s = TrimRightSpace s @ concat bs)"
proof (induction s rule: TrimRightSpace.induct)
  case (1 s)
  show ?case
  proof (cases "spaceAtEnd s = 0 \<or> s = []")
    case True
    have e: "spaceAtEnd [] = 0" by (simp add: spaceAtEnd_0 HasSuffix_def whiteSpace_nonempty)
    have t: "TrimRightSpace s = s" using True by (subst TrimRightSpace.simps) simp
    have "s = s @ concat []" by simp
    then show ?thesis using True e t by (metis empty_set empty_subsetI)
  next
    case False
    let ?r = "take (length s - spaceAtEnd s) s"
    from False have t: "TrimRightSpace s = TrimRightSpace ?r"
      by (subst TrimRightSpace.simps) simp
    from "1.IH"[OF False] obtain bs where
      z: "spaceAtEnd (TrimRightSpace ?r) = 0"
      and bs: "set bs \<subseteq> set whiteSpace" "?r = TrimRightSpace ?r @ concat bs"
      by blast
    from False obtain e where e: "e \<in> set whiteSpace" "s = ?r @ e"
      using spaceAtEnd_suffix[of s] by blast
    have "concat (bs @ [e]) = concat bs @ e" by simp
    then have "s = TrimRightSpace s @ concat (bs @ [e])"
      unfolding t using e(2) bs(2) by (metis append.assoc)
    moreover have "set (bs @ [e]) \<subseteq> set whiteSpace" using e(1) bs(1) by simp
    ultimately show ?thesis using z t by metis
  qed
qed

text \<open>
  What TrimSpace returns: the string without a run of white space characters at its
  start and a run of them at its end, and what is left neither starts nor ends with a
  white space character.
\<close>

lemma TrimSpace_spec:
  "\<exists>as bs. set as \<subseteq> set whiteSpace \<and> set bs \<subseteq> set whiteSpace \<and>
      s = concat as @ TrimSpace s @ concat bs \<and>
      (\<forall>e \<in> set whiteSpace. \<not> HasPrefix (TrimSpace s) e \<and> \<not> HasSuffix (TrimSpace s) e)"
proof -
  obtain as where as: "set as \<subseteq> set whiteSpace" "s = concat as @ TrimLeftSpace s"
    and l0: "spaceAtStart (TrimLeftSpace s) = 0"
    using TrimLeftSpace_spec[of s] by blast
  obtain bs where bs: "set bs \<subseteq> set whiteSpace"
      "TrimLeftSpace s = TrimRightSpace (TrimLeftSpace s) @ concat bs"
    and r0: "spaceAtEnd (TrimRightSpace (TrimLeftSpace s)) = 0"
    using TrimRightSpace_spec[of "TrimLeftSpace s"] by blast
  have t: "TrimSpace s = TrimRightSpace (TrimLeftSpace s)" by (simp add: TrimSpace_def)
  have dec: "s = concat as @ TrimSpace s @ concat bs"
    unfolding t using as(2) bs(2) by metis
  have nosuf: "\<forall>e \<in> set whiteSpace. \<not> HasSuffix (TrimSpace s) e"
    using r0 unfolding t spaceAtEnd_0 .
  have nopre: "\<forall>e \<in> set whiteSpace. \<not> HasPrefix (TrimSpace s) e"
  proof
    fix e assume e: "e \<in> set whiteSpace"
    show "\<not> HasPrefix (TrimSpace s) e"
    proof
      assume "HasPrefix (TrimSpace s) e"
      then have "length e \<le> length (TrimSpace s)" "take (length e) (TrimSpace s) = e"
        by (simp_all add: HasPrefix_def)
      then have "HasPrefix (TrimSpace s @ concat bs) e" by (simp add: HasPrefix_def)
      then have "HasPrefix (TrimLeftSpace s) e" using bs(2) t by simp
      then show False using l0 e unfolding spaceAtStart_0 by blast
    qed
  qed
  show ?thesis using as(1) bs(1) dec nopre nosuf by blast
qed

text \<open>
  What SplitLines returns: the lines, none with a line feed, that give the string back
  when they are joined with line feeds.
\<close>

lemma SplitLines_spec:
  "SplitLines s \<noteq> [] \<and>
   concat (map (\<lambda>l. l @ [newline]) (butlast (SplitLines s))) @ last (SplitLines s) = s \<and>
   (\<forall>l \<in> set (SplitLines s). newline \<notin> set l)"
proof (induction s)
  case Nil
  then show ?case by simp
next
  case (Cons c cs)
  then obtain l ls where ls: "SplitLines cs = l # ls" by (cases "SplitLines cs") auto
  show ?case using Cons ls by (cases ls) (auto split: if_splits)
qed

lemma cutAt_Some:
  "cutAt sep s = Some (a, b) \<Longrightarrow>
   s = a @ sep @ b \<and> (\<forall>i < length a. \<not> HasPrefix (drop i s) sep)"
proof (induction s arbitrary: a b)
  case Nil
  then show ?case by simp
next
  case (Cons c cs)
  show ?case
  proof (cases "HasPrefix (c # cs) sep")
    case True
    with Cons.prems have ab: "a = []" "b = drop (length sep) (c # cs)" by simp_all
    from True have "take (length sep) (c # cs) = sep" by (simp add: HasPrefix_def)
    then have "sep @ drop (length sep) (c # cs) = c # cs" by (metis append_take_drop_id)
    then have "c # cs = sep @ b" using ab(2) by simp
    then show ?thesis using ab(1) by simp
  next
    case False
    with Cons.prems obtain a' where c': "cutAt sep cs = Some (a', b)" and a: "a = c # a'"
      by (auto split: option.splits)
    have ih: "cs = a' @ sep @ b" "\<forall>i < length a'. \<not> HasPrefix (drop i cs) sep"
      using Cons.IH[OF c'] by blast+
    have "\<not> HasPrefix (drop i (c # cs)) sep" if "i < length a" for i
      using that False ih(2) a by (cases i) auto
    then show ?thesis using ih(1) a by simp
  qed
qed

lemma cutAt_None:
  "cutAt sep s = None \<Longrightarrow> i < length s \<Longrightarrow> \<not> HasPrefix (drop i s) sep"
proof (induction s arbitrary: i)
  case Nil
  then show ?case by simp
next
  case (Cons c cs)
  then have n: "\<not> HasPrefix (c # cs) sep" and c': "cutAt sep cs = None"
    by (auto split: if_splits option.splits)
  show ?case using n Cons.IH[OF c'] Cons.prems(2) by (cases i) auto
qed

subsection \<open>Loading migrations\<close>

lemma evalMigration_error: "evalMigration L ts name sql = Inl e \<Longrightarrow> \<exists>msg. e = TemplateError msg"
  by (auto simp: evalMigration_def split: sum.splits)

lemma loadShared_error:
  "loadShared L fs path ps ts = Inl e \<Longrightarrow> (\<exists>msg. e = TemplateError msg) \<or> (\<exists>msg. e = FsError msg)"
  by (induction ps arbitrary: ts) (auto simp: Let_def split: sum.splits)

lemma containsSQL_iff:
  "(\<not> containsSQL upSQL) =
     (\<forall>v \<in> set (SplitLines upSQL). TrimSpace v = [] \<or> HasPrefix (TrimSpace v) ''--'')"
  by (auto simp: containsSQL_def list_ex_iff Let_def)

lemma loadMigrationFile_ErrNoFwMigration:
  "(fst (loadMigrationFile L fs p ts m) = Some ErrNoFwMigration) =
     (\<exists>body upSQL ts1.
        ReadFile fs p = Inr body \<and>
        evalMigration L ts (filepath_Base L p @ '' up'') (TrimSpace (SplitN2 body separator ! 0))
          = Inr (upSQL, ts1) \<and>
        \<not> containsSQL upSQL)"
proof (cases "ReadFile fs p")
  case (Inl e)
  then show ?thesis by (simp add: loadMigrationFile_def)
next
  case (Inr body)
  let ?up = "evalMigration L ts (filepath_Base L p @ '' up'') (TrimSpace (SplitN2 body separator ! 0))"
  show ?thesis
  proof (cases ?up)
    case (Inl e)
    then have "e \<noteq> ErrNoFwMigration" using evalMigration_error[OF Inl] by auto
    then show ?thesis using Inl Inr by (simp add: loadMigrationFile_def Let_def)
  next
    case up: (Inr r)
    obtain upSQL ts1 where r: "r = (upSQL, ts1)" by (cases r)
    let ?down = "evalMigration L ts1 (filepath_Base L p @ '' down'')
                   (TrimSpace (SplitN2 body separator ! 1))"
    show ?thesis
    proof (cases "containsSQL upSQL")
      case False
      then show ?thesis using Inr up r by (simp add: loadMigrationFile_def Let_def)
    next
      case True
      have "fst (loadMigrationFile L fs p ts m) \<noteq> Some ErrNoFwMigration"
      proof (cases ?down)
        case (Inl e)
        then have "e \<noteq> ErrNoFwMigration" using evalMigration_error[OF Inl] by auto
        then show ?thesis using Inr up r True Inl by (simp add: loadMigrationFile_def Let_def)
      next
        case d: (Inr r2)
        then show ?thesis using Inr up r True
          by (cases r2) (simp add: loadMigrationFile_def Let_def)
      qed
      then show ?thesis using Inr up r True by simp
    qed
  qed
qed

lemma loadMigrationFile_accepts:
  assumes "ReadFile fs p = Inr body"
    and "evalMigration L ts (filepath_Base L p @ '' up'') (TrimSpace (SplitN2 body separator ! 0))
           = Inr (upSQL, ts1)"
    and "containsSQL upSQL"
    and "length (SplitN2 body separator) \<noteq> 2 \<or>
         evalMigration L ts1 (filepath_Base L p @ '' down'') (TrimSpace (SplitN2 body separator ! 1))
           = Inr ([], ts2)"
  shows "fst (loadMigrationFile L fs p ts m) = None"
    and "snd (snd (loadMigrationFile L fs p ts m)) = AppendMigration (filepath_Base L p) upSQL [] m"
  using assms by (auto simp: loadMigrationFile_def Let_def)

lemma lookup_AppendMigration:
  "lookup (AppendMigration name upSQL downSQL m) name =
     Some \<lparr>Sequence = of_nat (length (Migrations m)) + 1, Name = name,
           UpSQL = upSQL, DownSQL = downSQL\<rparr>"
  by (simp add: lookup_def AppendMigration_def update_conv')

lemma loadMigrationFiles_fails:
  "(fst (loadMigrationFiles L fs ps ts m) = Some e) =
     (\<exists>before p after ts' m'.
        ps = before @ p # after \<and> loadsTo L fs before ts m = Some (ts', m') \<and>
        fst (loadMigrationFile L fs p ts' m') = Some e)"
proof (induction ps arbitrary: ts m)
  case Nil
  then show ?case by simp
next
  case (Cons q qs)
  obtain r ts1 m1 where l: "loadMigrationFile L fs q ts m = (r, ts1, m1)"
    by (cases "loadMigrationFile L fs q ts m") auto
  show ?case
  proof (cases r)
    case (Some e')
    have "(\<exists>before p after ts' m'.
        q # qs = before @ p # after \<and> loadsTo L fs before ts m = Some (ts', m') \<and>
        fst (loadMigrationFile L fs p ts' m') = Some e) = (e' = e)"
    proof
      assume "\<exists>before p after ts' m'.
        q # qs = before @ p # after \<and> loadsTo L fs before ts m = Some (ts', m') \<and>
        fst (loadMigrationFile L fs p ts' m') = Some e"
      then obtain before p after ts' m' where d: "q # qs = before @ p # after"
        and lt: "loadsTo L fs before ts m = Some (ts', m')"
        and f: "fst (loadMigrationFile L fs p ts' m') = Some e" by blast
      show "e' = e"
      proof (cases before)
        case Nil
        with d lt f l Some show ?thesis by simp
      next
        case (Cons b bs)
        with d have "b = q" by simp
        with Cons lt l Some show ?thesis by simp
      qed
    next
      assume "e' = e"
      then have "q # qs = [] @ q # qs \<and> loadsTo L fs [] ts m = Some (ts, m) \<and>
        fst (loadMigrationFile L fs q ts m) = Some e" using l Some by simp
      then show "\<exists>before p after ts' m'.
        q # qs = before @ p # after \<and> loadsTo L fs before ts m = Some (ts', m') \<and>
        fst (loadMigrationFile L fs p ts' m') = Some e" by blast
    qed
    then show ?thesis using l Some by simp
  next
    case None
    have "(\<exists>before p after ts' m'.
        q # qs = before @ p # after \<and> loadsTo L fs before ts m = Some (ts', m') \<and>
        fst (loadMigrationFile L fs p ts' m') = Some e) =
      (\<exists>before p after ts' m'.
        qs = before @ p # after \<and> loadsTo L fs before ts1 m1 = Some (ts', m') \<and>
        fst (loadMigrationFile L fs p ts' m') = Some e)"
    proof
      assume "\<exists>before p after ts' m'.
        q # qs = before @ p # after \<and> loadsTo L fs before ts m = Some (ts', m') \<and>
        fst (loadMigrationFile L fs p ts' m') = Some e"
      then obtain before p after ts' m' where d: "q # qs = before @ p # after"
        and lt: "loadsTo L fs before ts m = Some (ts', m')"
        and f: "fst (loadMigrationFile L fs p ts' m') = Some e" by blast
      show "\<exists>before p after ts' m'.
        qs = before @ p # after \<and> loadsTo L fs before ts1 m1 = Some (ts', m') \<and>
        fst (loadMigrationFile L fs p ts' m') = Some e"
      proof (cases before)
        case Nil
        with d lt f l None show ?thesis by simp
      next
        case (Cons b bs)
        with d have b: "b = q" and qs: "qs = bs @ p # after" by simp_all
        from Cons lt l None b have "loadsTo L fs bs ts1 m1 = Some (ts', m')" by simp
        with qs f show ?thesis by blast
      qed
    next
      assume "\<exists>before p after ts' m'.
        qs = before @ p # after \<and> loadsTo L fs before ts1 m1 = Some (ts', m') \<and>
        fst (loadMigrationFile L fs p ts' m') = Some e"
      then obtain before p after ts' m' where d: "qs = before @ p # after"
        and lt: "loadsTo L fs before ts1 m1 = Some (ts', m')"
        and f: "fst (loadMigrationFile L fs p ts' m') = Some e" by blast
      have "q # qs = (q # before) @ p # after" using d by simp
      moreover have "loadsTo L fs (q # before) ts m = Some (ts', m')" using lt l None by simp
      ultimately show "\<exists>before p after ts' m'.
        q # qs = before @ p # after \<and> loadsTo L fs before ts m = Some (ts', m') \<and>
        fst (loadMigrationFile L fs p ts' m') = Some e" using f by blast
    qed
    then show ?thesis using Cons.IH[of ts1 m1] l None by simp
  qed
qed

lemma loadMigrationFiles_loads:
  "(fst (loadMigrationFiles L fs ps ts m) = None) =
     (\<exists>ts'. loadsTo L fs ps ts m = Some (ts', snd (loadMigrationFiles L fs ps ts m)))"
proof (induction ps arbitrary: ts m)
  case Nil
  then show ?case by simp
next
  case (Cons q qs)
  obtain r ts1 m1 where l: "loadMigrationFile L fs q ts m = (r, ts1, m1)"
    by (cases "loadMigrationFile L fs q ts m") auto
  show ?case using Cons.IH[of ts1 m1] l by (cases r) simp_all
qed

lemma TrimRight_idem: "TrimRight (TrimRight path cs) cs = TrimRight path cs"
  by (simp add: TrimRight_def dropWhile_idem)

text \<open>LoadMigrations once the shared templates are registered and the directory is read.\<close>

lemma LoadMigrations_files:
  assumes "Glob fs (filepath_Join L [TrimRight path ''/'', ''*'', ''*.sql'']) = Inr sharedPaths"
    and "loadShared L fs (TrimRight path ''/'') sharedPaths (template_New L) = Inr mainTmpl"
    and "ReadDir fs (TrimRight path ''/'') = Inr fileInfos"
  shows "LoadMigrations L fs path m =
     (if map (\<lambda>fi. filepath_Join L [TrimRight path ''/'', FileName fi])
            (filter (\<lambda>fi. \<not> IsDir fi \<and> migrationPattern (FileName fi)) fileInfos) = []
      then (Some (NoMigrationsFoundError (TrimRight path ''/'')), m)
      else loadMigrationFiles L fs
             (map (\<lambda>fi. filepath_Join L [TrimRight path ''/'', FileName fi])
                (filter (\<lambda>fi. \<not> IsDir fi \<and> migrationPattern (FileName fi)) fileInfos))
             mainTmpl m)"
  using assms by (simp add: LoadMigrations_def FindMigrationsEx_def Let_def TrimRight_idem)

text \<open>LoadMigrations when it returns before the second loop.\<close>

lemma LoadMigrations_early:
  assumes "fst (LoadMigrations L fs path m) = Some ErrNoFwMigration"
  shows "\<exists>sharedPaths mainTmpl fileInfos.
     Glob fs (filepath_Join L [TrimRight path ''/'', ''*'', ''*.sql'']) = Inr sharedPaths \<and>
     loadShared L fs (TrimRight path ''/'') sharedPaths (template_New L) = Inr mainTmpl \<and>
     ReadDir fs (TrimRight path ''/'') = Inr fileInfos"
proof -
  let ?path = "TrimRight path ''/''"
  obtain sharedPaths where g: "Glob fs (filepath_Join L [?path, ''*'', ''*.sql'']) = Inr sharedPaths"
    using assms by (cases "Glob fs (filepath_Join L [?path, ''*'', ''*.sql''])")
      (auto simp: LoadMigrations_def Let_def)
  obtain mainTmpl where s: "loadShared L fs ?path sharedPaths (template_New L) = Inr mainTmpl"
  proof (cases "loadShared L fs ?path sharedPaths (template_New L)")
    case (Inl e)
    then have "e \<noteq> ErrNoFwMigration" using loadShared_error[OF Inl] by auto
    then show ?thesis using assms g Inl by (simp add: LoadMigrations_def Let_def)
  next
    case (Inr a)
    then show ?thesis using that by simp
  qed
  obtain fileInfos where r: "ReadDir fs ?path = Inr fileInfos"
    using assms g s
    by (cases "ReadDir fs ?path")
       (auto simp: LoadMigrations_def Let_def FindMigrationsEx_def TrimRight_idem)
  show ?thesis using g s r by blast
qed

lemma LoadMigrations_ErrNoFwMigration:
  "(fst (LoadMigrations L fs path m) = Some ErrNoFwMigration) =
     (\<exists>sharedPaths mainTmpl fileInfos before p after ts' m'.
        Glob fs (filepath_Join L [TrimRight path ''/'', ''*'', ''*.sql'']) = Inr sharedPaths \<and>
        loadShared L fs (TrimRight path ''/'') sharedPaths (template_New L) = Inr mainTmpl \<and>
        ReadDir fs (TrimRight path ''/'') = Inr fileInfos \<and>
        map (\<lambda>fi. filepath_Join L [TrimRight path ''/'', FileName fi])
          (filter (\<lambda>fi. \<not> IsDir fi \<and> migrationPattern (FileName fi)) fileInfos)
          = before @ p # after \<and>
        loadsTo L fs before mainTmpl m = Some (ts', m') \<and>
        fst (loadMigrationFile L fs p ts' m') = Some ErrNoFwMigration)"
proof
  assume a: "fst (LoadMigrations L fs path m) = Some ErrNoFwMigration"
  from LoadMigrations_early[OF a] obtain sharedPaths mainTmpl fileInfos where
    g: "Glob fs (filepath_Join L [TrimRight path ''/'', ''*'', ''*.sql'']) = Inr sharedPaths"
    and s: "loadShared L fs (TrimRight path ''/'') sharedPaths (template_New L) = Inr mainTmpl"
    and r: "ReadDir fs (TrimRight path ''/'') = Inr fileInfos" by blast
  define paths where "paths = map (\<lambda>fi. filepath_Join L [TrimRight path ''/'', FileName fi])
          (filter (\<lambda>fi. \<not> IsDir fi \<and> migrationPattern (FileName fi)) fileInfos)"
  have u: "LoadMigrations L fs path m =
     (if paths = [] then (Some (NoMigrationsFoundError (TrimRight path ''/'')), m)
      else loadMigrationFiles L fs paths mainTmpl m)"
    unfolding paths_def by (rule LoadMigrations_files[OF g s r])
  from a u have "fst (loadMigrationFiles L fs paths mainTmpl m) = Some ErrNoFwMigration"
    by (simp split: if_splits)
  then obtain before p after ts' m' where "paths = before @ p # after"
    "loadsTo L fs before mainTmpl m = Some (ts', m')"
    "fst (loadMigrationFile L fs p ts' m') = Some ErrNoFwMigration"
    unfolding loadMigrationFiles_fails by blast
  then show "\<exists>sharedPaths mainTmpl fileInfos before p after ts' m'.
        Glob fs (filepath_Join L [TrimRight path ''/'', ''*'', ''*.sql'']) = Inr sharedPaths \<and>
        loadShared L fs (TrimRight path ''/'') sharedPaths (template_New L) = Inr mainTmpl \<and>
        ReadDir fs (TrimRight path ''/'') = Inr fileInfos \<and>
        map (\<lambda>fi. filepath_Join L [TrimRight path ''/'', FileName fi])
          (filter (\<lambda>fi. \<not> IsDir fi \<and> migrationPattern (FileName fi)) fileInfos)
          = before @ p # after \<and>
        loadsTo L fs before mainTmpl m = Some (ts', m') \<and>
        fst (loadMigrationFile L fs p ts' m') = Some ErrNoFwMigration"
    using g s r unfolding paths_def by blast
next
  assume "\<exists>sharedPaths mainTmpl fileInfos before p after ts' m'.
        Glob fs (filepath_Join L [TrimRight path ''/'', ''*'', ''*.sql'']) = Inr sharedPaths \<and>
        loadShared L fs (TrimRight path ''/'') sharedPaths (template_New L) = Inr mainTmpl \<and>
        ReadDir fs (TrimRight path ''/'') = Inr fileInfos \<and>
        map (\<lambda>fi. filepath_Join L [TrimRight path ''/'', FileName fi])
          (filter (\<lambda>fi. \<not> IsDir fi \<and> migrationPattern (FileName fi)) fileInfos)
          = before @ p # after \<and>
        loadsTo L fs before mainTmpl m = Some (ts', m') \<and>
        fst (loadMigrationFile L fs p ts' m') = Some ErrNoFwMigration"
  then obtain sharedPaths mainTmpl fileInfos before p after ts' m' where
    g: "Glob fs (filepath_Join L [TrimRight path ''/'', ''*'', ''*.sql'']) = Inr sharedPaths"
    and s: "loadShared L fs (TrimRight path ''/'') sharedPaths (template_New L) = Inr mainTmpl"
    and r: "ReadDir fs (TrimRight path ''/'') = Inr fileInfos"
    and d: "map (\<lambda>fi. filepath_Join L [TrimRight path ''/'', FileName fi])
          (filter (\<lambda>fi. \<not> IsDir fi \<and> migrationPattern (FileName fi)) fileInfos)
          = before @ p # after"
    and lt: "loadsTo L fs before mainTmpl m = Some (ts', m')"
    and f: "fst (loadMigrationFile L fs p ts' m') = Some ErrNoFwMigration" by blast
  have "fst (loadMigrationFiles L fs (before @ p # after) mainTmpl m) = Some ErrNoFwMigration"
    unfolding loadMigrationFiles_fails using lt f by blast
  then show "fst (LoadMigrations L fs path m) = Some ErrNoFwMigration"
    unfolding LoadMigrations_files[OF g s r] d by simp
qed

text \<open>
  C8. The empty-forward-migration error. A load fails with ErrNoFwMigration exactly when
  the shared templates are registered, the directory is read, and one of the migration
  files found, reached after the files before it were loaded, was read and its forward
  step rendered to a text of which every line is, once trimmed, empty or starts with
  "--". For one file \<open>p\<close> alone: it makes the load return ErrNoFwMigration exactly when it
  was read, its forward step was rendered and every line of the rendered forward step
  is, once trimmed, empty or starts with "--". A forward step with SQL whose down step is
  missing or renders to the empty string is accepted: the migration is stored with the
  empty DownSQL.
\<close>

theorem ErrNoFwMigration_exactly:
  "((fst (LoadMigrations L fs path m) = Some ErrNoFwMigration) =
     (\<exists>sharedPaths mainTmpl fileInfos before p' after ts' m' body' upSQL' ts1'.
        Glob fs (filepath_Join L [TrimRight path ''/'', ''*'', ''*.sql'']) = Inr sharedPaths \<and>
        loadShared L fs (TrimRight path ''/'') sharedPaths (template_New L) = Inr mainTmpl \<and>
        ReadDir fs (TrimRight path ''/'') = Inr fileInfos \<and>
        map (\<lambda>fi. filepath_Join L [TrimRight path ''/'', FileName fi])
          (filter (\<lambda>fi. \<not> IsDir fi \<and> migrationPattern (FileName fi)) fileInfos)
          = before @ p' # after \<and>
        loadsTo L fs before mainTmpl m = Some (ts', m') \<and>
        ReadFile fs p' = Inr body' \<and>
        evalMigration L ts' (filepath_Base L p' @ '' up'')
          (TrimSpace (SplitN2 body' separator ! 0)) = Inr (upSQL', ts1') \<and>
        (\<forall>v \<in> set (SplitLines upSQL'). TrimSpace v = [] \<or> HasPrefix (TrimSpace v) ''--''))) \<and>
   ((fst (loadMigrationFile L fs p ts m) = Some ErrNoFwMigration) =
     (\<exists>body upSQL ts1.
        ReadFile fs p = Inr body \<and>
        evalMigration L ts (filepath_Base L p @ '' up'') (TrimSpace (SplitN2 body separator ! 0))
          = Inr (upSQL, ts1) \<and>
        (\<forall>v \<in> set (SplitLines upSQL). TrimSpace v = [] \<or> HasPrefix (TrimSpace v) ''--''))) \<and>
   (ReadFile fs p = Inr body \<and>
    evalMigration L ts (filepath_Base L p @ '' up'') (TrimSpace (SplitN2 body separator ! 0))
      = Inr (upSQL, ts1) \<and>
    \<not> (\<forall>v \<in> set (SplitLines upSQL). TrimSpace v = [] \<or> HasPrefix (TrimSpace v) ''--'') \<and>
    (length (SplitN2 body separator) \<noteq> 2 \<or>
     evalMigration L ts1 (filepath_Base L p @ '' down'') (TrimSpace (SplitN2 body separator ! 1))
       = Inr ([], ts2)) \<longrightarrow>
      fst (loadMigrationFile L fs p ts m) = None \<and>
      lookup (snd (snd (loadMigrationFile L fs p ts m))) (filepath_Base L p) =
        Some \<lparr>Sequence = of_nat (length (Migrations m)) + 1, Name = filepath_Base L p,
              UpSQL = upSQL, DownSQL = []\<rparr>)"
proof (intro conjI impI)
  show "(fst (LoadMigrations L fs path m) = Some ErrNoFwMigration) =
     (\<exists>sharedPaths mainTmpl fileInfos before p' after ts' m' body' upSQL' ts1'.
        Glob fs (filepath_Join L [TrimRight path ''/'', ''*'', ''*.sql'']) = Inr sharedPaths \<and>
        loadShared L fs (TrimRight path ''/'') sharedPaths (template_New L) = Inr mainTmpl \<and>
        ReadDir fs (TrimRight path ''/'') = Inr fileInfos \<and>
        map (\<lambda>fi. filepath_Join L [TrimRight path ''/'', FileName fi])
          (filter (\<lambda>fi. \<not> IsDir fi \<and> migrationPattern (FileName fi)) fileInfos)
          = before @ p' # after \<and>
        loadsTo L fs before mainTmpl m = Some (ts', m') \<and>
        ReadFile fs p' = Inr body' \<and>
        evalMigration L ts' (filepath_Base L p' @ '' up'')
          (TrimSpace (SplitN2 body' separator ! 0)) = Inr (upSQL', ts1') \<and>
        (\<forall>v \<in> set (SplitLines upSQL'). TrimSpace v = [] \<or> HasPrefix (TrimSpace v) ''--''))"
    unfolding LoadMigrations_ErrNoFwMigration loadMigrationFile_ErrNoFwMigration containsSQL_iff
    by blast
next
  show "(fst (loadMigrationFile L fs p ts m) = Some ErrNoFwMigration) =
     (\<exists>body upSQL ts1.
        ReadFile fs p = Inr body \<and>
        evalMigration L ts (filepath_Base L p @ '' up'') (TrimSpace (SplitN2 body separator ! 0))
          = Inr (upSQL, ts1) \<and>
        (\<forall>v \<in> set (SplitLines upSQL). TrimSpace v = [] \<or> HasPrefix (TrimSpace v) ''--''))"
    by (simp only: loadMigrationFile_ErrNoFwMigration containsSQL_iff)
next
  assume h: "ReadFile fs p = Inr body \<and>
    evalMigration L ts (filepath_Base L p @ '' up'') (TrimSpace (SplitN2 body separator ! 0))
      = Inr (upSQL, ts1) \<and>
    \<not> (\<forall>v \<in> set (SplitLines upSQL). TrimSpace v = [] \<or> HasPrefix (TrimSpace v) ''--'') \<and>
    (length (SplitN2 body separator) \<noteq> 2 \<or>
     evalMigration L ts1 (filepath_Base L p @ '' down'') (TrimSpace (SplitN2 body separator ! 1))
       = Inr ([], ts2))"
  then have c: "containsSQL upSQL" using containsSQL_iff[of upSQL] by blast
  note A = loadMigrationFile_accepts[OF h[THEN conjunct1] h[THEN conjunct2, THEN conjunct1] c
      h[THEN conjunct2, THEN conjunct2, THEN conjunct2], of m]
  show "fst (loadMigrationFile L fs p ts m) = None" using A(1) .
  show "lookup (snd (snd (loadMigrationFile L fs p ts m))) (filepath_Base L p) =
        Some \<lparr>Sequence = of_nat (length (Migrations m)) + 1, Name = filepath_Base L p,
              UpSQL = upSQL, DownSQL = []\<rparr>"
    unfolding A(2) by (rule lookup_AppendMigration)
qed

theorem ErrNoFwMigration_exactly_witness:
  "fst (LoadMigrations plainLib (twoFilesFS commentThenSQL nbspOnly) ''migrations/'' newMigrator)
     = Some ErrNoFwMigration \<and>
   (\<exists>sharedPaths mainTmpl fileInfos before p' after ts' m' body' upSQL' ts1'.
      Glob (twoFilesFS commentThenSQL nbspOnly)
        (filepath_Join plainLib [TrimRight ''migrations/'' ''/'', ''*'', ''*.sql'']) = Inr sharedPaths \<and>
      loadShared plainLib (twoFilesFS commentThenSQL nbspOnly) (TrimRight ''migrations/'' ''/'')
        sharedPaths (template_New plainLib) = Inr mainTmpl \<and>
      ReadDir (twoFilesFS commentThenSQL nbspOnly) (TrimRight ''migrations/'' ''/'') = Inr fileInfos \<and>
      map (\<lambda>fi. filepath_Join plainLib [TrimRight ''migrations/'' ''/'', FileName fi])
        (filter (\<lambda>fi. \<not> IsDir fi \<and> migrationPattern (FileName fi)) fileInfos)
        = before @ p' # after \<and>
      loadsTo plainLib (twoFilesFS commentThenSQL nbspOnly) before mainTmpl newMigrator
        = Some (ts', m') \<and>
      ReadFile (twoFilesFS commentThenSQL nbspOnly) p' = Inr body' \<and>
      evalMigration plainLib ts' (filepath_Base plainLib p' @ '' up'')
        (TrimSpace (SplitN2 body' separator ! 0)) = Inr (upSQL', ts1') \<and>
      (\<forall>v \<in> set (SplitLines upSQL'). TrimSpace v = [] \<or> HasPrefix (TrimSpace v) ''--'')) \<and>
   fst (LoadMigrations plainLib (oneFileFS commentsOnly) ''migrations/'' newMigrator)
     = Some ErrNoFwMigration \<and>
   fst (LoadMigrations plainLib (oneFileFS nbspOnly) ''migrations/'' newMigrator)
     = Some ErrNoFwMigration \<and>
   fst (LoadMigrations plainLib (oneFileFS commentThenSQL) ''migrations/'' newMigrator) = None \<and>
   fst (LoadMigrations plainLib (twoFilesFS nbspOnly commentThenSQL) ''migrations/'' newMigrator)
     = Some ErrNoFwMigration \<and>
   fst (LoadMigrations plainLib (twoFilesFS commentThenSQL blankDown) ''migrations/'' newMigrator)
     = None \<and>
   ReadFile (oneFileFS blankDown) ''migrations/001_create_t1.sql'' = Inr blankDown \<and>
   fst (loadMigrationFile plainLib (oneFileFS blankDown) ''migrations/001_create_t1.sql'' []
          newMigrator) = None \<and>
   lookup (snd (snd (loadMigrationFile plainLib (oneFileFS blankDown)
             ''migrations/001_create_t1.sql'' [] newMigrator))) ''001_create_t1.sql'' =
     Some \<lparr>Sequence = 1, Name = ''001_create_t1.sql'',
           UpSQL = ''create table t1(id serial primary key);'', DownSQL = []\<rparr>"
proof -
  let ?p = "''migrations/001_create_t1.sql''"
  let ?up = "''create table t1(id serial primary key);''"
  let ?ts1 = "[(''001_create_t1.sql up'', ?up)]"
  let ?ts2 = "(''001_create_t1.sql down'', []) # ?ts1"
  have h0: "fst (LoadMigrations plainLib (twoFilesFS commentThenSQL nbspOnly) ''migrations/''
              newMigrator) = Some ErrNoFwMigration" by code_simp
  have e1: "fst (LoadMigrations plainLib (oneFileFS commentsOnly) ''migrations/'' newMigrator)
     = Some ErrNoFwMigration" by code_simp
  have e2: "fst (LoadMigrations plainLib (oneFileFS nbspOnly) ''migrations/'' newMigrator)
     = Some ErrNoFwMigration" by code_simp
  have e3: "fst (LoadMigrations plainLib (oneFileFS commentThenSQL) ''migrations/'' newMigrator)
     = None" by code_simp
  have e4: "fst (LoadMigrations plainLib (twoFilesFS nbspOnly commentThenSQL) ''migrations/''
              newMigrator) = Some ErrNoFwMigration" by code_simp
  have e5: "fst (LoadMigrations plainLib (twoFilesFS commentThenSQL blankDown) ''migrations/''
              newMigrator) = None" by code_simp
  have h1: "ReadFile (oneFileFS blankDown) ?p = Inr blankDown" by code_simp
  have h2: "evalMigration plainLib [] (filepath_Base plainLib ?p @ '' up'')
              (TrimSpace (SplitN2 blankDown separator ! 0)) = Inr (?up, ?ts1)" by code_simp
  have h3: "\<not> (\<forall>v \<in> set (SplitLines ?up). TrimSpace v = [] \<or> HasPrefix (TrimSpace v) ''--'')"
    by code_simp
  have h4: "length (SplitN2 blankDown separator) \<noteq> 2 \<or>
     evalMigration plainLib ?ts1 (filepath_Base plainLib ?p @ '' down'')
       (TrimSpace (SplitN2 blankDown separator ! 1)) = Inr ([], ?ts2)" by code_simp
  have b: "filepath_Base plainLib ?p = ''001_create_t1.sql''" by code_simp
  have n: "(of_nat (length (Migrations newMigrator)) + 1 :: 32 word) = 1"
    by (simp add: newMigrator_def)
  note T1 = ErrNoFwMigration_exactly[of plainLib "twoFilesFS commentThenSQL nbspOnly"
      "''migrations/''" newMigrator ?p "[]" "[]" "[]" "[]" "[]"]
  have a: "\<exists>sharedPaths mainTmpl fileInfos before p' after ts' m' body' upSQL' ts1'.
      Glob (twoFilesFS commentThenSQL nbspOnly)
        (filepath_Join plainLib [TrimRight ''migrations/'' ''/'', ''*'', ''*.sql'']) = Inr sharedPaths \<and>
      loadShared plainLib (twoFilesFS commentThenSQL nbspOnly) (TrimRight ''migrations/'' ''/'')
        sharedPaths (template_New plainLib) = Inr mainTmpl \<and>
      ReadDir (twoFilesFS commentThenSQL nbspOnly) (TrimRight ''migrations/'' ''/'') = Inr fileInfos \<and>
      map (\<lambda>fi. filepath_Join plainLib [TrimRight ''migrations/'' ''/'', FileName fi])
        (filter (\<lambda>fi. \<not> IsDir fi \<and> migrationPattern (FileName fi)) fileInfos)
        = before @ p' # after \<and>
      loadsTo plainLib (twoFilesFS commentThenSQL nbspOnly) before mainTmpl newMigrator
        = Some (ts', m') \<and>
      ReadFile (twoFilesFS commentThenSQL nbspOnly) p' = Inr body' \<and>
      evalMigration plainLib ts' (filepath_Base plainLib p' @ '' up'')
        (TrimSpace (SplitN2 body' separator ! 0)) = Inr (upSQL', ts1') \<and>
      (\<forall>v \<in> set (SplitLines upSQL'). TrimSpace v = [] \<or> HasPrefix (TrimSpace v) ''--'')"
    using T1[THEN conjunct1] h0 by (rule iffD1)
  note T2 = ErrNoFwMigration_exactly[of plainLib "oneFileFS blankDown" "''migrations/''"
      newMigrator ?p "[]" blankDown ?up ?ts1 ?ts2]
  have c: "fst (loadMigrationFile plainLib (oneFileFS blankDown) ?p [] newMigrator) = None \<and>
      lookup (snd (snd (loadMigrationFile plainLib (oneFileFS blankDown) ?p [] newMigrator)))
        (filepath_Base plainLib ?p) =
        Some \<lparr>Sequence = of_nat (length (Migrations newMigrator)) + 1,
              Name = filepath_Base plainLib ?p, UpSQL = ?up, DownSQL = []\<rparr>"
    using T2[THEN conjunct2, THEN conjunct2] h1 h2 h3 h4 by blast
  from c have c1: "fst (loadMigrationFile plainLib (oneFileFS blankDown) ?p [] newMigrator) = None"
    and c2: "lookup (snd (snd (loadMigrationFile plainLib (oneFileFS blankDown) ?p [] newMigrator)))
        ''001_create_t1.sql'' =
        Some \<lparr>Sequence = 1, Name = ''001_create_t1.sql'', UpSQL = ?up, DownSQL = []\<rparr>"
    unfolding b n by simp_all
  from h0 a e1 e2 e3 e4 e5 h1 c1 c2 show ?thesis by (intro conjI)
qed

lemma FindMigrationsEx_none:
  assumes "ReadDir fs (TrimRight path ''/'') = Inr fileInfos"
    and "\<forall>fi \<in> set fileInfos. IsDir fi \<or> \<not> migrationPattern (FileName fi)"
  shows "FindMigrationsEx L fs (TrimRight path ''/'') = Inr []"
proof -
  have "filter (\<lambda>fi. \<not> IsDir fi \<and> migrationPattern (FileName fi)) fileInfos = []"
    using assms(2) by (auto simp: filter_empty_conv)
  moreover have "TrimRight (TrimRight path ''/'') ''/'' = TrimRight path ''/''"
    by (simp add: TrimRight_def dropWhile_idem)
  ultimately show ?thesis using assms(1) by (simp add: FindMigrationsEx_def Let_def)
qed

text \<open>
  C6, as the code has it. When the shared templates are registered, the directory is read
  and none of its entries is a file with a migration name, the load itself returns the
  no-migrations-found error for the directory and leaves the migrator as it was; the
  command line program reports it as an error of the load.
\<close>

theorem LoadMigrations_no_migrations:
  assumes "Glob fs (filepath_Join L [TrimRight path ''/'', ''*'', ''*.sql'']) = Inr sharedPaths"
    and "loadShared L fs (TrimRight path ''/'') sharedPaths (template_New L) = Inr mainTmpl"
    and "ReadDir fs (TrimRight path ''/'') = Inr fileInfos"
    and "\<forall>fi \<in> set fileInfos. IsDir fi \<or> \<not> migrationPattern (FileName fi)"
  shows "LoadMigrations L fs path m = (Some (NoMigrationsFoundError (TrimRight path ''/'')), m) \<and>
         cliLoad L fs path m = ErrorLoadingMigrations (NoMigrationsFoundError (TrimRight path ''/''))"
proof -
  have "LoadMigrations L fs path m = (Some (NoMigrationsFoundError (TrimRight path ''/'')), m)"
    using assms(1,2) FindMigrationsEx_none[OF assms(3,4), of L]
    by (simp add: LoadMigrations_def Let_def)
  then show ?thesis by (simp add: cliLoad_def)
qed

theorem LoadMigrations_no_migrations_witness:
  "Glob noMigrationsFS (filepath_Join plainLib [TrimRight ''migrations/'' ''/'', ''*'', ''*.sql''])
     = Inr [] \<and>
   ReadDir noMigrationsFS (TrimRight ''migrations/'' ''/'') =
     Inr [\<lparr>FileName = ''README.md'', IsDir = False\<rparr>, \<lparr>FileName = ''001_shared.sql'', IsDir = True\<rparr>] \<and>
   cliLoad plainLib noMigrationsFS ''migrations/'' newMigrator =
     ErrorLoadingMigrations (NoMigrationsFoundError ''migrations'')"
proof -
  let ?infos = "[\<lparr>FileName = ''README.md'', IsDir = False\<rparr>, \<lparr>FileName = ''001_shared.sql'', IsDir = True\<rparr>]"
  have h1: "Glob noMigrationsFS (filepath_Join plainLib [TrimRight ''migrations/'' ''/'', ''*'', ''*.sql''])
     = Inr []" by code_simp
  have h2: "loadShared plainLib noMigrationsFS (TrimRight ''migrations/'' ''/'') []
              (template_New plainLib) = Inr []" by code_simp
  have h3: "ReadDir noMigrationsFS (TrimRight ''migrations/'' ''/'') = Inr ?infos" by code_simp
  have h4: "\<forall>fi \<in> set ?infos. IsDir fi \<or> \<not> migrationPattern (FileName fi)" by code_simp
  have t: "TrimRight ''migrations/'' ''/'' = ''migrations''" by code_simp
  from LoadMigrations_no_migrations[OF h1 h2 h3 h4, of newMigrator]
  have "cliLoad plainLib noMigrationsFS ''migrations/'' newMigrator =
     ErrorLoadingMigrations (NoMigrationsFoundError ''migrations'')"
    unfolding t by simp
  with h1 h3 show ?thesis by (intro conjI)
qed

text \<open>
  C6, as it is stated, fails on a directory that is read and holds a text file and a
  subdirectory but no migration file: the load does not succeed with an empty set, it
  returns the no-migrations-found error.
\<close>

theorem LoadMigrations_empty_directory_fails:
  "ReadDir noMigrationsFS ''migrations'' =
     Inr [\<lparr>FileName = ''README.md'', IsDir = False\<rparr>, \<lparr>FileName = ''001_shared.sql'', IsDir = True\<rparr>] \<and>
   \<not> migrationPattern ''README.md'' \<and>
   LoadMigrations plainLib noMigrationsFS ''migrations'' newMigrator =
     (Some (NoMigrationsFoundError ''migrations''), newMigrator) \<and>
   LoadMigrations plainLib noMigrationsFS ''migrations'' newMigrator \<noteq> (None, newMigrator)"
  by code_simp

end
